theory Spec2Isabelle
  imports Complex_Main "HOL-Library.Word" "HOL-Library.Sublist"
begin

section \<open>Poisson disk sampling (PoissonGenerator.h)\<close>

text \<open>
  Conventions of the embedding.
  \<^item> A C++ \<open>float\<close> is read as a real number and float arithmetic as exact real
    arithmetic; \<open>sqrt\<close>, \<open>cos\<close> and \<open>sin\<close> are the real functions.
  \<^item> \<open>int\<close> and \<open>size_t\<close> are unbounded (\<open>int\<close>, \<open>nat\<close>); the one conversion that
    can leave the range of \<open>int\<close>, the grid dimension, is guarded explicitly.
  \<^item> Unchecked \<open>std::vector\<close> indexing out of range (undefined behaviour) and a
    throwing \<open>at()\<close> are results \<open>Inl e\<close>.
  \<^item> The random generator is an explicit state of an arbitrary type \<open>'g\<close>; its
    operations are the fields of a record that every sampling function receives.
  \<^item> Two properties of the sampler, the minimum distance and the single point per
    grid cell, depend on rounding. For them the sampler is read a second time, in
    binary32 arithmetic, in the functions whose names end in \<open>32\<close>.
\<close>

datatype error =
    IndexOutOfBounds    \<comment> \<open>\<open>operator[]\<close> outside the vector: undefined behaviour\<close>
  | FloatToIntUndefined \<comment> \<open>conversion to \<open>int\<close> of a value that is not finite or does not fit\<close>
  | OutOfRangeException \<comment> \<open>\<open>std::out_of_range\<close> thrown by \<open>at()\<close>\<close>

record 'g PRNG =
  seeded :: "32 word \<Rightarrow> 'g"             \<comment> \<open>\<open>DefaultPRNG(uint32_t seed)\<close>\<close>
  randomFloat :: "'g \<Rightarrow> real \<times> 'g"       \<comment> \<open>\<open>randomFloat()\<close>\<close>
  randomInt :: "'g \<Rightarrow> int \<Rightarrow> int \<times> 'g"   \<comment> \<open>\<open>randomInt(maxValue)\<close>\<close>

record Point =
  px :: real
  py :: real
  valid :: bool

definition Point0 :: Point where
  \<comment> \<open>\<open>Point() = default\<close>\<close>
  "Point0 = \<lparr>px = 0, py = 0, valid = False\<rparr>"

definition mkPoint :: "real \<Rightarrow> real \<Rightarrow> Point" where
  \<comment> \<open>\<open>Point(float X, float Y)\<close>\<close>
  "mkPoint X Y = \<lparr>px = X, py = Y, valid = True\<rparr>"

definition isInRectangle :: "Point \<Rightarrow> bool" where
  "isInRectangle p \<longleftrightarrow> px p \<ge> 0 \<and> py p \<ge> 0 \<and> px p \<le> 1 \<and> py p \<le> 1"

definition isInCircle :: "Point \<Rightarrow> bool" where
  "isInCircle p \<longleftrightarrow>
     (let fx = px p - 0.5; fy = py p - 0.5 in (fx * fx + fy * fy) \<le> 0.25)"

type_synonym GridPoint = "int \<times> int"

definition getDistance :: "Point \<Rightarrow> Point \<Rightarrow> real" where
  "getDistance P1 P2 =
     sqrt ((px P1 - px P2) * (px P1 - px P2) + (py P1 - py P2) * (py P1 - py P2))"

definition int_cast :: "real \<Rightarrow> int" where
  \<comment> \<open>\<open>(int)f\<close>: truncation towards zero\<close>
  "int_cast r = (if r \<ge> 0 then \<lfloor>r\<rfloor> else \<lceil>r\<rceil>)"

definition imageToGrid :: "Point \<Rightarrow> real \<Rightarrow> GridPoint" where
  "imageToGrid P cellSize = (int_cast (px P / cellSize), int_cast (py P / cellSize))"

record Grid =
  g_w :: int                     \<comment> \<open>field \<open>w\<close> (with a trailing underscore in the source)\<close>
  g_h :: int                     \<comment> \<open>field \<open>h\<close>\<close>
  g_cellSize :: real             \<comment> \<open>field \<open>cellSize\<close>\<close>
  g_cells :: "Point list list"   \<comment> \<open>field \<open>grid\<close>\<close>

definition mkGrid :: "int \<Rightarrow> int \<Rightarrow> real \<Rightarrow> Grid" where
  \<comment> \<open>\<open>Grid(w, h, cellSize)\<close>: \<open>h\<close> rows of \<open>w\<close> default points\<close>
  "mkGrid w h cellSize =
     \<lparr>g_w = w, g_h = h, g_cellSize = cellSize,
      g_cells = replicate (nat h) (replicate (nat w) Point0)\<rparr>"

definition insert_grid :: "Grid \<Rightarrow> Point \<Rightarrow> error + Grid" where
  \<comment> \<open>\<open>Grid::insert\<close>: \<open>g_cells[g.x][g.y] = p\<close>, no check of the index\<close>
  "insert_grid G p =
     (let (gx, gy) = imageToGrid p (g_cellSize G) in
      if 0 \<le> gx \<and> nat gx < length (g_cells G) \<and> 0 \<le> gy \<and> nat gy < length (g_cells G ! nat gx)
      then Inr (G\<lparr>g_cells := (g_cells G)[nat gx := (g_cells G ! nat gx)[nat gy := p]]\<rparr>)
      else Inl IndexOutOfBounds)"

definition D_cells :: int where
  \<comment> \<open>\<open>const int D = 5\<close>\<close>
  "D_cells = 5"

definition isInNeighbourhood :: "Grid \<Rightarrow> Point \<Rightarrow> real \<Rightarrow> real \<Rightarrow> bool" where
  \<comment> \<open>The two nested loops return true at the first hit, false at the end. The cell
      is read under the source's own test \<open>i < w\<close>, \<open>j < h\<close>; the grids of a run are
      square (\<open>gridW = gridH\<close>), so the test keeps the read inside the rows.\<close>
  "isInNeighbourhood G point minDist cellSize =
     (let (gx, gy) = imageToGrid point cellSize in
      list_ex (\<lambda>i. list_ex (\<lambda>j.
          i \<ge> 0 \<and> i < g_w G \<and> j \<ge> 0 \<and> j < g_h G \<and>
          (let P = g_cells G ! nat i ! nat j in valid P \<and> getDistance P point < minDist))
        [gy - D_cells ..  gy + D_cells - 1])
        [gx - D_cells ..  gx + D_cells - 1])"

definition popRandom :: "'g PRNG \<Rightarrow> Point list \<Rightarrow> 'g \<Rightarrow> error + (Point \<times> Point list \<times> 'g)" where
  "popRandom R points generator =
     (let (idx, g') = randomInt R generator (int (length points) - 1) in
      if 0 \<le> idx \<and> nat idx < length points
      then Inr (points ! nat idx, take (nat idx) points @ drop (Suc (nat idx)) points, g')
      else Inl IndexOutOfBounds)"

definition generateRandomPointAround :: "'g PRNG \<Rightarrow> Point \<Rightarrow> real \<Rightarrow> 'g \<Rightarrow> Point \<times> 'g" where
  "generateRandomPointAround R p minDist generator =
     (let (R1, g1) = randomFloat R generator;
          (R2, g2) = randomFloat R g1;
          radius = minDist * (R1 + 1);
          angle = 2 * 3.141592653589 * R2;
          x = px p + radius * cos angle;
          y = py p + radius * sin angle
      in (mkPoint x y, g2))"

definition canFit :: "bool \<Rightarrow> Point \<Rightarrow> bool" where
  \<comment> \<open>\<open>isCircle ? p.isInCircle() : p.isInRectangle()\<close>\<close>
  "canFit isCircle p = (if isCircle then isInCircle p else isInRectangle p)"

text \<open>
  The loop \<open>do { firstPoint = Point(randomFloat(), randomFloat()); } while (...)\<close>.
  C++ leaves the order of the two draws open; here the first draw is \<open>x\<close>. The loop
  ends only when a drawn point passes the shape test, so the function is partial.
\<close>

partial_function (option) firstPointLoop :: "'g PRNG \<Rightarrow> bool \<Rightarrow> 'g \<Rightarrow> (Point \<times> 'g) option" where
  "firstPointLoop R isCircle generator =
     (case randomFloat R generator of (a, g1) \<Rightarrow>
       (case randomFloat R g1 of (b, g2) \<Rightarrow>
          if \<not> canFit isCircle (mkPoint a b) then firstPointLoop R isCircle g2
          else Some (mkPoint a b, g2)))"

record 'g sampler =
  samplePoints :: "Point list"
  processList :: "Point list"
  grid :: Grid
  gen :: 'g

fun candidates :: "'g PRNG \<Rightarrow> Point \<Rightarrow> bool \<Rightarrow> real \<Rightarrow> real \<Rightarrow> nat \<Rightarrow> 'g sampler \<Rightarrow> error + 'g sampler" where
  "candidates R point isCircle minDist cellSize 0 s = Inr s"
| "candidates R point isCircle minDist cellSize (Suc k) s =
     (case generateRandomPointAround R point minDist (gen s) of (newPoint, g') \<Rightarrow>
        if canFit isCircle newPoint \<and> \<not> isInNeighbourhood (grid s) newPoint minDist cellSize
        then (case insert_grid (grid s) newPoint of
                Inl e \<Rightarrow> Inl e
              | Inr G' \<Rightarrow> candidates R point isCircle minDist cellSize k
                  \<lparr>samplePoints = samplePoints s @ [newPoint],
                   processList = processList s @ [newPoint], grid = G', gen = g'\<rparr>)
        else candidates R point isCircle minDist cellSize k (s\<lparr>gen := g'\<rparr>))"

function mainLoop :: "'g PRNG \<Rightarrow> nat \<Rightarrow> int \<Rightarrow> bool \<Rightarrow> real \<Rightarrow> real \<Rightarrow> 'g sampler \<Rightarrow> error + 'g sampler" where
  "mainLoop R numPoints newPointsCount isCircle minDist cellSize s =
     (if processList s \<noteq> [] \<and> length (samplePoints s) < numPoints then
        (case popRandom R (processList s) (gen s) of
           Inl e \<Rightarrow> Inl e
         | Inr (point, rest, g') \<Rightarrow>
             (case candidates R point isCircle minDist cellSize (nat newPointsCount)
                     (s\<lparr>processList := rest, gen := g'\<rparr>) of
                Inl e \<Rightarrow> Inl e
              | Inr s' \<Rightarrow> mainLoop R numPoints newPointsCount isCircle minDist cellSize s'))
      else Inr s)"
  by pat_completeness auto
termination
proof (relation "measures [\<lambda>(R, numPoints, newPointsCount, isCircle, minDist, cellSize, s).
                              numPoints - length (samplePoints s),
                           \<lambda>(R, numPoints, newPointsCount, isCircle, minDist, cellSize, s).
                              length (processList s)]")
  show "wf (measures [\<lambda>(R :: 'g PRNG, numPoints, newPointsCount :: int, isCircle :: bool,
                         minDist :: real, cellSize :: real, s :: 'g sampler).
                              numPoints - length (samplePoints s),
                           \<lambda>(R, numPoints, newPointsCount, isCircle, minDist, cellSize, s).
                              length (processList s)])"
    by simp
next
  fix R :: "'g PRNG" and numPoints :: nat and newPointsCount :: int and isCircle :: bool
    and minDist cellSize :: real and s :: "'g sampler" and x2 point y rest g' s'
  assume go: "processList s \<noteq> [] \<and> length (samplePoints s) < numPoints"
    and pop: "popRandom R (processList s) (gen s) = Inr x2" "(point, y) = x2" "(rest, g') = y"
    and cand: "candidates R point isCircle minDist cellSize (nat newPointsCount)
                 (s\<lparr>processList := rest, gen := g'\<rparr>) = Inr s'"
  have grow: "length (samplePoints t) \<le> length (samplePoints t') \<and>
              length (processList t') + length (samplePoints t) =
              length (processList t) + length (samplePoints t')"
    if "candidates R point isCircle minDist cellSize k t = Inr t'" for k and t t' :: "'g sampler"
    using that
  proof (induction k arbitrary: t)
    case 0
    then show ?case by simp
  next
    case (Suc k)
    then show ?case
      by (fastforce split: prod.splits if_splits sum.splits)
  qed
  have "length rest < length (processList s)"
    using pop go by (auto simp: popRandom_def Let_def split: prod.splits if_splits)
  with grow[OF cand] go
  show "((R, numPoints, newPointsCount, isCircle, minDist, cellSize, s'),
         (R, numPoints, newPointsCount, isCircle, minDist, cellSize, s))
        \<in> measures [\<lambda>(R, numPoints, newPointsCount, isCircle, minDist, cellSize, s).
                              numPoints - length (samplePoints s),
                           \<lambda>(R, numPoints, newPointsCount, isCircle, minDist, cellSize, s).
                              length (processList s)]"
    by auto
qed

declare mainLoop.simps [simp del]

definition effectiveMinDist :: "nat \<Rightarrow> real \<Rightarrow> real" where
  \<comment> \<open>\<open>if (minDist < 0.0f) minDist = sqrt(float(numPoints)) / float(numPoints)\<close>\<close>
  "effectiveMinDist numPoints minDist =
     (if minDist < 0 then sqrt (real numPoints) / real numPoints else minDist)"

definition gridUndefined :: "nat \<Rightarrow> real \<Rightarrow> bool" where
  \<comment> \<open>The cases in which \<open>(int)ceil(1.0f / cellSize)\<close> converts a value that is
      not a number (\<open>0/0\<close> for \<open>numPoints = 0\<close> and a negative \<open>minDist\<close>), infinite
      (\<open>minDist = 0\<close>) or too large for \<open>int\<close>.\<close>
  "gridUndefined numPoints minDist \<longleftrightarrow>
     (minDist < 0 \<and> numPoints = 0) \<or> effectiveMinDist numPoints minDist = 0 \<or>
     \<lceil>1 / (effectiveMinDist numPoints minDist / sqrt 2)\<rceil> \<ge> (2::int) ^ 31"

definition initialSampler :: "Grid \<Rightarrow> Point \<Rightarrow> 'g \<Rightarrow> 'g sampler" where
  \<comment> \<open>the containers after the three updates with \<open>firstPoint\<close>\<close>
  "initialSampler G1 firstPoint g1 =
     \<lparr>samplePoints = [firstPoint], processList = [firstPoint], grid = G1, gen = g1\<rparr>"

definition samplerRun :: "'g PRNG \<Rightarrow> nat \<Rightarrow> 'g \<Rightarrow> int \<Rightarrow> bool \<Rightarrow> real \<Rightarrow> (error + 'g sampler) option" where
  \<comment> \<open>The body of \<open>generatePoissonPoints\<close> up to its \<open>return\<close>: the local containers
      at the exit of the loop. \<open>None\<close>: the rejection sampling of the first point never ends.\<close>
  "samplerRun R numPoints generator newPointsCount isCircle minDist0 =
     (let minDist = effectiveMinDist numPoints minDist0;
          cellSize = minDist / sqrt 2
      in if gridUndefined numPoints minDist0 then Some (Inl FloatToIntUndefined)
         else
           let gridW = \<lceil>1 / cellSize\<rceil>;
               gridH = \<lceil>1 / cellSize\<rceil>;
               G = mkGrid gridW gridH cellSize
           in case firstPointLoop R isCircle generator of
                None \<Rightarrow> None
              | Some (firstPoint, g1) \<Rightarrow>
                  (case insert_grid G firstPoint of
                     Inl e \<Rightarrow> Some (Inl e)
                   | Inr G1 \<Rightarrow>
                       Some (mainLoop R numPoints newPointsCount isCircle minDist cellSize
                               (initialSampler G1 firstPoint g1))))"

definition generatePoissonPoints :: "'g PRNG \<Rightarrow> nat \<Rightarrow> 'g \<Rightarrow> int \<Rightarrow> bool \<Rightarrow> real \<Rightarrow> (error + Point list \<times> 'g) option" where
  \<comment> \<open>returns \<open>samplePoints\<close>; the generator, passed by reference, is returned with it\<close>
  "generatePoissonPoints R numPoints generator newPointsCount isCircle minDist =
     (case samplerRun R numPoints generator newPointsCount isCircle minDist of
        None \<Rightarrow> None
      | Some (Inl e) \<Rightarrow> Some (Inl e)
      | Some (Inr s) \<Rightarrow> Some (Inr (samplePoints s, gen s)))"

section \<open>The sampler in binary32 arithmetic\<close>

text \<open>
  The same functions of \<open>PoissonGenerator.h\<close>, with every \<open>float\<close> operation rounded:
  \<open>fl32 x\<close> is the binary32 number nearest to \<open>x\<close>, ties to even, with the gradual
  underflow of IEEE 754 (overflow to infinity is not modelled; no value here comes
  near it). \<open>sqrt\<close>, \<open>cos\<close> and \<open>sin\<close> are the \<open>float\<close> overloads, taken as correctly
  rounded; every product and sum is rounded on its own (no fused multiply-add). The
  draws of \<open>randomFloat\<close> are binary32 numbers already and are not rounded again.
  Comparisons are exact. Records, grid construction, \<open>popRandom\<close> and the error
  results are those of the first reading.
\<close>

definition rne :: "real \<Rightarrow> int" where
  "rne x = (let f = \<lfloor>x\<rfloor>; d = x - of_int f
            in if d < 1 / 2 then f else if 1 / 2 < d then f + 1
               else if even f then f else f + 1)"

definition fl32 :: "real \<Rightarrow> real" where
  "fl32 x = (if x = 0 then 0
             else let e = max \<lfloor>log 2 \<bar>x\<bar>\<rfloor> (- 126)
                  in real_of_int (rne (x / 2 powr real_of_int (e - 23))) * 2 powr real_of_int (e - 23))"

definition isInCircle32 :: "Point \<Rightarrow> bool" where
  "isInCircle32 p \<longleftrightarrow>
     (let fx = fl32 (px p - 0.5); fy = fl32 (py p - 0.5)
      in fl32 (fl32 (fx * fx) + fl32 (fy * fy)) \<le> 0.25)"

definition getDistance32 :: "Point \<Rightarrow> Point \<Rightarrow> real" where
  "getDistance32 P1 P2 =
     fl32 (sqrt (fl32 (fl32 (fl32 (px P1 - px P2) * fl32 (px P1 - px P2)) +
                       fl32 (fl32 (py P1 - py P2) * fl32 (py P1 - py P2)))))"

definition imageToGrid32 :: "Point \<Rightarrow> real \<Rightarrow> GridPoint" where
  "imageToGrid32 P cellSize =
     (int_cast (fl32 (px P / cellSize)), int_cast (fl32 (py P / cellSize)))"

definition insert_grid32 :: "Grid \<Rightarrow> Point \<Rightarrow> error + Grid" where
  "insert_grid32 G p =
     (let (gx, gy) = imageToGrid32 p (g_cellSize G) in
      if 0 \<le> gx \<and> nat gx < length (g_cells G) \<and> 0 \<le> gy \<and> nat gy < length (g_cells G ! nat gx)
      then Inr (G\<lparr>g_cells := (g_cells G)[nat gx := (g_cells G ! nat gx)[nat gy := p]]\<rparr>)
      else Inl IndexOutOfBounds)"

definition isInNeighbourhood32 :: "Grid \<Rightarrow> Point \<Rightarrow> real \<Rightarrow> real \<Rightarrow> bool" where
  "isInNeighbourhood32 G point minDist cellSize =
     (let (gx, gy) = imageToGrid32 point cellSize in
      list_ex (\<lambda>i. list_ex (\<lambda>j.
          i \<ge> 0 \<and> i < g_w G \<and> j \<ge> 0 \<and> j < g_h G \<and>
          (let P = g_cells G ! nat i ! nat j in valid P \<and> getDistance32 P point < minDist))
        [gy - D_cells ..  gy + D_cells - 1])
        [gx - D_cells ..  gx + D_cells - 1])"

definition generateRandomPointAround32 :: "'g PRNG \<Rightarrow> Point \<Rightarrow> real \<Rightarrow> 'g \<Rightarrow> Point \<times> 'g" where
  "generateRandomPointAround32 R p minDist generator =
     (let (R1, g1) = randomFloat R generator;
          (R2, g2) = randomFloat R g1;
          radius = fl32 (minDist * fl32 (R1 + 1));
          angle = fl32 (fl32 (2 * fl32 3.141592653589) * R2);
          x = fl32 (px p + fl32 (radius * fl32 (cos angle)));
          y = fl32 (py p + fl32 (radius * fl32 (sin angle)))
      in (mkPoint x y, g2))"

definition canFit32 :: "bool \<Rightarrow> Point \<Rightarrow> bool" where
  "canFit32 isCircle p = (if isCircle then isInCircle32 p else isInRectangle p)"

partial_function (option) firstPointLoop32 :: "'g PRNG \<Rightarrow> bool \<Rightarrow> 'g \<Rightarrow> (Point \<times> 'g) option" where
  "firstPointLoop32 R isCircle generator =
     (case randomFloat R generator of (a, g1) \<Rightarrow>
       (case randomFloat R g1 of (b, g2) \<Rightarrow>
          if \<not> canFit32 isCircle (mkPoint a b) then firstPointLoop32 R isCircle g2
          else Some (mkPoint a b, g2)))"

fun candidates32 :: "'g PRNG \<Rightarrow> Point \<Rightarrow> bool \<Rightarrow> real \<Rightarrow> real \<Rightarrow> nat \<Rightarrow> 'g sampler \<Rightarrow> error + 'g sampler" where
  "candidates32 R point isCircle minDist cellSize 0 s = Inr s"
| "candidates32 R point isCircle minDist cellSize (Suc k) s =
     (case generateRandomPointAround32 R point minDist (gen s) of (newPoint, g') \<Rightarrow>
        if canFit32 isCircle newPoint \<and> \<not> isInNeighbourhood32 (grid s) newPoint minDist cellSize
        then (case insert_grid32 (grid s) newPoint of
                Inl e \<Rightarrow> Inl e
              | Inr G' \<Rightarrow> candidates32 R point isCircle minDist cellSize k
                  \<lparr>samplePoints = samplePoints s @ [newPoint],
                   processList = processList s @ [newPoint], grid = G', gen = g'\<rparr>)
        else candidates32 R point isCircle minDist cellSize k (s\<lparr>gen := g'\<rparr>))"

function mainLoop32 :: "'g PRNG \<Rightarrow> nat \<Rightarrow> int \<Rightarrow> bool \<Rightarrow> real \<Rightarrow> real \<Rightarrow> 'g sampler \<Rightarrow> error + 'g sampler" where
  "mainLoop32 R numPoints newPointsCount isCircle minDist cellSize s =
     (if processList s \<noteq> [] \<and> length (samplePoints s) < numPoints then
        (case popRandom R (processList s) (gen s) of
           Inl e \<Rightarrow> Inl e
         | Inr (point, rest, g') \<Rightarrow>
             (case candidates32 R point isCircle minDist cellSize (nat newPointsCount)
                     (s\<lparr>processList := rest, gen := g'\<rparr>) of
                Inl e \<Rightarrow> Inl e
              | Inr s' \<Rightarrow> mainLoop32 R numPoints newPointsCount isCircle minDist cellSize s'))
      else Inr s)"
  by pat_completeness auto
termination
proof (relation "measures [\<lambda>(R, numPoints, newPointsCount, isCircle, minDist, cellSize, s).
                              numPoints - length (samplePoints s),
                           \<lambda>(R, numPoints, newPointsCount, isCircle, minDist, cellSize, s).
                              length (processList s)]")
  show "wf (measures [\<lambda>(R :: 'g PRNG, numPoints, newPointsCount :: int, isCircle :: bool,
                         minDist :: real, cellSize :: real, s :: 'g sampler).
                              numPoints - length (samplePoints s),
                           \<lambda>(R, numPoints, newPointsCount, isCircle, minDist, cellSize, s).
                              length (processList s)])"
    by simp
next
  fix R :: "'g PRNG" and numPoints :: nat and newPointsCount :: int and isCircle :: bool
    and minDist cellSize :: real and s :: "'g sampler" and x2 point y rest g' s'
  assume go: "processList s \<noteq> [] \<and> length (samplePoints s) < numPoints"
    and pop: "popRandom R (processList s) (gen s) = Inr x2" "(point, y) = x2" "(rest, g') = y"
    and cand: "candidates32 R point isCircle minDist cellSize (nat newPointsCount)
                 (s\<lparr>processList := rest, gen := g'\<rparr>) = Inr s'"
  have grow: "length (samplePoints t) \<le> length (samplePoints t') \<and>
              length (processList t') + length (samplePoints t) =
              length (processList t) + length (samplePoints t')"
    if "candidates32 R point isCircle minDist cellSize k t = Inr t'" for k and t t' :: "'g sampler"
    using that
  proof (induction k arbitrary: t)
    case 0
    then show ?case by simp
  next
    case (Suc k)
    then show ?case
      by (fastforce split: prod.splits if_splits sum.splits)
  qed
  have "length rest < length (processList s)"
    using pop go by (auto simp: popRandom_def Let_def split: prod.splits if_splits)
  with grow[OF cand] go
  show "((R, numPoints, newPointsCount, isCircle, minDist, cellSize, s'),
         (R, numPoints, newPointsCount, isCircle, minDist, cellSize, s))
        \<in> measures [\<lambda>(R, numPoints, newPointsCount, isCircle, minDist, cellSize, s).
                              numPoints - length (samplePoints s),
                           \<lambda>(R, numPoints, newPointsCount, isCircle, minDist, cellSize, s).
                              length (processList s)]"
    by auto
qed

declare mainLoop32.simps [simp del]

definition effectiveMinDist32 :: "nat \<Rightarrow> real \<Rightarrow> real" where
  "effectiveMinDist32 numPoints minDist =
     (if minDist < 0 then fl32 (fl32 (sqrt (fl32 (real numPoints))) / fl32 (real numPoints))
      else minDist)"

definition cellSize32 :: "real \<Rightarrow> real" where
  "cellSize32 minDist = fl32 (minDist / fl32 (sqrt 2))"

definition gridUndefined32 :: "nat \<Rightarrow> real \<Rightarrow> bool" where
  "gridUndefined32 numPoints minDist \<longleftrightarrow>
     (minDist < 0 \<and> numPoints = 0) \<or>
     cellSize32 (effectiveMinDist32 numPoints minDist) = 0 \<or>
     \<lceil>fl32 (1 / cellSize32 (effectiveMinDist32 numPoints minDist))\<rceil> \<ge> (2::int) ^ 31"

definition samplerRun32 :: "'g PRNG \<Rightarrow> nat \<Rightarrow> 'g \<Rightarrow> int \<Rightarrow> bool \<Rightarrow> real \<Rightarrow> (error + 'g sampler) option" where
  "samplerRun32 R numPoints generator newPointsCount isCircle minDist0 =
     (let minDist = effectiveMinDist32 numPoints minDist0;
          cellSize = cellSize32 minDist
      in if gridUndefined32 numPoints minDist0 then Some (Inl FloatToIntUndefined)
         else
           let gridW = \<lceil>fl32 (1 / cellSize)\<rceil>;
               gridH = \<lceil>fl32 (1 / cellSize)\<rceil>;
               G = mkGrid gridW gridH cellSize
           in case firstPointLoop32 R isCircle generator of
                None \<Rightarrow> None
              | Some (firstPoint, g1) \<Rightarrow>
                  (case insert_grid32 G firstPoint of
                     Inl e \<Rightarrow> Some (Inl e)
                   | Inr G1 \<Rightarrow>
                       Some (mainLoop32 R numPoints newPointsCount isCircle minDist cellSize
                               (initialSampler G1 firstPoint g1))))"

definition generatePoissonPoints32 :: "'g PRNG \<Rightarrow> nat \<Rightarrow> 'g \<Rightarrow> int \<Rightarrow> bool \<Rightarrow> real \<Rightarrow> (error + Point list \<times> 'g) option" where
  "generatePoissonPoints32 R numPoints generator newPointsCount isCircle minDist =
     (case samplerRun32 R numPoints generator newPointsCount isCircle minDist of
        None \<Rightarrow> None
      | Some (Inl e) \<Rightarrow> Some (Inl e)
      | Some (Inr s) \<Rightarrow> Some (Inr (samplePoints s, gen s)))"

section \<open>Map generation (map_generator.cpp)\<close>

text \<open>
  Modelled from the spec: the header \<open>map_generator.h\<close>, which declares \<open>Object\<close> and
  the members of \<open>MapGenerator\<close>, is not among the sources. A placement has a world
  position, a cell coordinate, a category string and an optional orientation; the
  integer members are those the constructor and the loops of \<open>map_generator.cpp\<close> use.
  The fields \<open>obj_pos\<close>, \<open>obj_a\<close>, \<open>obj_b\<close>, \<open>obj_type\<close>, \<open>obj_rotation\<close> stand for
  \<open>pos\<close>, \<open>a\<close>, \<open>b\<close>, \<open>type\<close>, \<open>rotation\<close>; a rotation never assigned is \<open>None\<close>.
\<close>

type_synonym vec2 = "real \<times> real"

record Object =
  obj_pos :: vec2
  obj_a :: int
  obj_b :: int
  obj_type :: string
  obj_rotation :: "real option"

text \<open>
  The state of a \<open>MapGenerator\<close>, with the state of the C library's \<open>rand()\<close> made a
  member (\<open>m_rand\<close>). The operations of the two random sources and \<open>glm::orientedAngle\<close>
  are parameters.
\<close>

record ('g, 'r) MapGenerator =
  m_width :: int
  m_height :: int
  m_gridWidth :: int
  m_gridHeight :: int
  m_cellSize :: int
  m_grid :: "Object list list list"
  m_PRNG :: 'g
  m_rand :: 'r

record ('g, 'r) Env =
  prng :: "'g PRNG"
  rand :: "'r \<Rightarrow> nat \<times> 'r"               \<comment> \<open>\<open>rand()\<close>, never negative\<close>
  orientedAngle :: "vec2 \<Rightarrow> vec2 \<Rightarrow> real"  \<comment> \<open>\<open>glm::orientedAngle\<close>\<close>

definition newMapGenerator :: "int \<Rightarrow> int \<Rightarrow> 'g \<Rightarrow> 'r \<Rightarrow> ('g, 'r) MapGenerator" where
  \<comment> \<open>the constructor, for \<open>initWidth\<close> and \<open>initHeight\<close> that are not negative\<close>
  "newMapGenerator initWidth initHeight g r =
     (let cellSize = 20;
          width = initWidth * 100;
          height = initHeight * 100;
          gridWidth = width div cellSize;
          gridHeight = height div cellSize
      in \<lparr>m_width = width, m_height = height, m_gridWidth = gridWidth,
          m_gridHeight = gridHeight, m_cellSize = cellSize,
          m_grid = replicate (nat gridWidth) (replicate (nat gridHeight) []),
          m_PRNG = g, m_rand = r\<rparr>)"

definition cellAt :: "Object list list list \<Rightarrow> int \<Rightarrow> int \<Rightarrow> error + Object list" where
  \<comment> \<open>\<open>grid.at(a).at(b)\<close>\<close>
  "cellAt G a b =
     (if 0 \<le> a \<and> nat a < length G \<and> 0 \<le> b \<and> nat b < length (G ! nat a)
      then Inr (G ! nat a ! nat b) else Inl OutOfRangeException)"

definition pushBack :: "Object list list list \<Rightarrow> int \<Rightarrow> int \<Rightarrow> Object \<Rightarrow> error + Object list list list" where
  \<comment> \<open>\<open>grid.at(a).at(b).push_back(point)\<close>\<close>
  "pushBack G a b point =
     (if 0 \<le> a \<and> nat a < length G \<and> 0 \<le> b \<and> nat b < length (G ! nat a)
      then Inr (G[nat a := (G ! nat a)[nat b := G ! nat a ! nat b @ [point]]])
      else Inl OutOfRangeException)"

definition binPoint :: "('g, 'r) Env \<Rightarrow> ('g, 'r) MapGenerator \<Rightarrow> Point \<Rightarrow> error + ('g, 'r) MapGenerator" where
  \<comment> \<open>one iteration of the loop "Sort the random points into grid cells"\<close>
  "binPoint E M p =
     (let pos = (px p * real_of_int (m_width M), py p * real_of_int (m_height M));
          a = \<lfloor>fst pos / real_of_int (m_cellSize M)\<rfloor>;
          b = \<lfloor>snd pos / real_of_int (m_cellSize M)\<rfloor>;
          (r0, rs) = rand E (m_rand M);
          r = r0 mod 100;
          point = \<lparr>obj_pos = pos, obj_a = a, obj_b = b,
                   obj_type = (if r < 15 then ''originPoint'' else ''hay''),
                   obj_rotation = None\<rparr>
      in case pushBack (m_grid M) a b point of
           Inl e \<Rightarrow> Inl e
         | Inr G' \<Rightarrow> Inr (M\<lparr>m_grid := G', m_rand := rs\<rparr>))"

fun binPoints :: "('g, 'r) Env \<Rightarrow> ('g, 'r) MapGenerator \<Rightarrow> Point list \<Rightarrow> error + ('g, 'r) MapGenerator" where
  "binPoints E M [] = Inr M"
| "binPoints E M (p # ps) =
     (case binPoint E M p of Inl e \<Rightarrow> Inl e | Inr M' \<Rightarrow> binPoints E M' ps)"

definition instantiated :: "Object \<Rightarrow> bool" where
  \<comment> \<open>the guard of the loop "Create objects at each point"\<close>
  "instantiated o' \<longleftrightarrow> \<not> (obj_type o' = ''default'' \<or> obj_type o' = ''originPoint'')"

definition finalPass :: "('g, 'r) MapGenerator \<Rightarrow> error + Object list" where
  \<comment> \<open>the placements for which the last loop of \<open>GenerateMap\<close> creates a scene node, in order\<close>
  "finalPass M =
     foldr (\<lambda>(x, y) acc.
              case cellAt (m_grid M) x y of
                Inl e \<Rightarrow> Inl e
              | Inr cell \<Rightarrow> (case acc of Inl e \<Rightarrow> Inl e | Inr os \<Rightarrow> Inr (filter instantiated cell @ os)))
       (List.product [0 .. m_gridWidth M - 1] [0 .. m_gridHeight M - 1]) (Inr [])"

definition distance :: "vec2 \<Rightarrow> vec2 \<Rightarrow> real" where
  \<comment> \<open>\<open>glm::distance\<close>\<close>
  "distance u v = sqrt ((fst u - fst v) * (fst u - fst v) + (snd u - snd v) * (snd u - snd v))"

definition normalize :: "vec2 \<Rightarrow> vec2" where
  \<comment> \<open>\<open>glm::normalize\<close>\<close>
  "normalize v = (fst v / distance v (0, 0), snd v / distance v (0, 0))"

definition scannedCells :: "('g, 'r) MapGenerator \<Rightarrow> Object \<Rightarrow> (int \<times> int) list" where
  \<comment> \<open>the cells that the loops \<open>for (int x = -1; x < 1; x++)\<close>,
      \<open>for (int y = -1; y < 1; y++)\<close> reach without \<open>continue\<close>, in order\<close>
  "scannedCells M origin =
     map (\<lambda>(x, y). (obj_a origin + x, obj_b origin + y))
       (filter (\<lambda>(x, y). \<not> (obj_a origin + x < 0 \<or> obj_a origin + x > m_gridWidth M - 1 \<or>
                            obj_b origin + y < 0 \<or> obj_b origin + y > m_gridHeight M - 1))
          (List.product [-1 .. 1 - 1] [-1 .. 1 - 1]))"

definition clearingBody :: "Object \<Rightarrow> real \<Rightarrow> Object \<Rightarrow> Object" where
  \<comment> \<open>the body of \<open>for (auto point : cell)\<close>, on the loop variable\<close>
  "clearingBody origin radius point =
     (if distance (obj_pos origin) (obj_pos point) < radius
      then point\<lparr>obj_type := ''default''\<rparr> else point)"

fun clearingScan :: "Object list list list \<Rightarrow> Object \<Rightarrow> real \<Rightarrow> (int \<times> int) list \<Rightarrow> error + Object list" where
  \<comment> \<open>The values of the loop variable \<open>point\<close> after each execution of the body.
      \<open>auto point\<close> declares a copy of the element, so the scan writes nothing to the grid.\<close>
  "clearingScan G origin radius [] = Inr []"
| "clearingScan G origin radius ((cx, cy) # cs) =
     (case cellAt G cx cy of
        Inl e \<Rightarrow> Inl e
      | Inr cell \<Rightarrow>
          (case clearingScan G origin radius cs of
             Inl e \<Rightarrow> Inl e
           | Inr vs \<Rightarrow> Inr (map (clearingBody origin radius) cell @ vs)))"

definition memberPos :: "Object \<Rightarrow> real \<Rightarrow> Point \<Rightarrow> vec2" where
  \<comment> \<open>\<open>origin.pos + glm::vec2(p.x * radius, p.y * radius) - radius / 2.0f\<close>\<close>
  "memberPos origin radius p =
     (fst (obj_pos origin) + px p * radius - radius / 2,
      snd (obj_pos origin) + py p * radius - radius / 2)"

definition placeMember :: "('g, 'r) Env \<Rightarrow> bool \<Rightarrow> Object \<Rightarrow> real \<Rightarrow> ('g, 'r) MapGenerator \<Rightarrow> Point \<Rightarrow> error + ('g, 'r) MapGenerator" where
  \<comment> \<open>one iteration of the loop over the points of the cluster\<close>
  "placeMember E isBarnCluster origin radius M p =
     (let pos = memberPos origin radius p;
          a = \<lfloor>fst pos / real_of_int (m_cellSize M)\<rfloor>;
          b = \<lfloor>snd pos / real_of_int (m_cellSize M)\<rfloor>
      in if a > m_gridWidth M - 1 \<or> a < 0 \<or> b > m_gridHeight M - 1 \<or> b < 0 then Inr M
         else if isBarnCluster then
           (let (r, rs) = rand E (m_rand M);
                rot = (if r mod 3 = 0 then 0
                       else if r mod 3 = 1 then 90
                       else orientedAngle E (normalize (obj_pos origin))
                              (normalize (fst pos - fst (obj_pos origin),
                                          snd pos - snd (obj_pos origin))));
                point = \<lparr>obj_pos = pos, obj_a = a, obj_b = b, obj_type = ''barn'',
                         obj_rotation = Some rot\<rparr>
            in case pushBack (m_grid M) a b point of
                 Inl e \<Rightarrow> Inl e
               | Inr G' \<Rightarrow> Inr (M\<lparr>m_grid := G', m_rand := rs\<rparr>))
         else
           (let point = \<lparr>obj_pos = pos, obj_a = a, obj_b = b, obj_type = ''tree'',
                         obj_rotation = None\<rparr>
            in case pushBack (m_grid M) a b point of
                 Inl e \<Rightarrow> Inl e
               | Inr G' \<Rightarrow> Inr (M\<lparr>m_grid := G'\<rparr>)))"

fun placeMembers :: "('g, 'r) Env \<Rightarrow> bool \<Rightarrow> Object \<Rightarrow> real \<Rightarrow> ('g, 'r) MapGenerator \<Rightarrow> Point list \<Rightarrow> error + ('g, 'r) MapGenerator" where
  "placeMembers E isBarnCluster origin radius M [] = Inr M"
| "placeMembers E isBarnCluster origin radius M (p # ps) =
     (case placeMember E isBarnCluster origin radius M p of
        Inl e \<Rightarrow> Inl e
      | Inr M' \<Rightarrow> placeMembers E isBarnCluster origin radius M' ps)"

definition clusterKind :: "('g, 'r) Env \<Rightarrow> ('g, 'r) MapGenerator \<Rightarrow> bool \<times> real \<times> 'r" where
  \<comment> \<open>\<open>isBarnCluster\<close> and \<open>radius\<close>, with the state of \<open>rand()\<close> after their draws\<close>
  "clusterKind E M =
     (let (r1, rs1) = rand E (m_rand M);
          isBarnCluster = (r1 mod 100 < 20)
      in if isBarnCluster then (True, real_of_int (m_cellSize M), rs1)
         else (let (r2, rs2) = rand E rs1
               in (False, (1 + real (r2 mod 5) / 5) * real_of_int (m_cellSize M), rs2)))"

definition clusterCount :: "('g, 'r) Env \<Rightarrow> bool \<Rightarrow> 'r \<Rightarrow> nat \<times> 'r" where
  \<comment> \<open>\<open>n = (isBarnCluster) ? rand() % 6 + 1 : rand() % 30 + 10\<close>\<close>
  "clusterCount E isBarnCluster rs =
     (let (r3, rs3) = rand E rs
      in ((if isBarnCluster then r3 mod 6 + 1 else r3 mod 30 + 10), rs3))"

definition GenerateCluster :: "('g, 'r) Env \<Rightarrow> ('g, 'r) MapGenerator \<Rightarrow> Object \<Rightarrow> (error + ('g, 'r) MapGenerator) option" where
  "GenerateCluster E M origin =
     (case clusterKind E M of (isBarnCluster, radius, rs2) \<Rightarrow>
       (case clearingScan (m_grid M) origin radius (scannedCells M origin) of
          Inl e \<Rightarrow> Some (Inl e)
        | Inr scanned \<Rightarrow>
            (case clusterCount E isBarnCluster rs2 of (n, rs3) \<Rightarrow>
              (case generatePoissonPoints (prng E) n (m_PRNG M) 70 True (- 1) of
                 None \<Rightarrow> None
               | Some (Inl e) \<Rightarrow> Some (Inl e)
               | Some (Inr (Points, g')) \<Rightarrow>
                   Some (placeMembers E isBarnCluster origin radius
                           (M\<lparr>m_PRNG := g', m_rand := rs3\<rparr>) Points)))))"

section \<open>The invariant of the sampling loop\<close>

text \<open>
  \<open>gridInv minDist pts G\<close>: the grid \<open>G\<close> has the cell size of the run and as many
  rows as \<open>w\<close> and columns as \<open>h\<close> say; every point of \<open>pts\<close> is valid, has
  coordinates that are not negative, and is stored in the cell that \<open>imageToGrid\<close>
  gives it; and two points at different positions of \<open>pts\<close> are at least
  \<open>minDist\<close> apart.
\<close>

definition gridInv :: "real \<Rightarrow> Point list \<Rightarrow> Grid \<Rightarrow> bool" where
  "gridInv minDist pts G \<longleftrightarrow>
     g_cellSize G = minDist / sqrt 2 \<and>
     length (g_cells G) = nat (g_w G) \<and> (\<forall>r\<in>set (g_cells G). length r = nat (g_h G)) \<and>
     (\<forall>p\<in>set pts. valid p \<and> 0 \<le> px p \<and> 0 \<le> py p \<and>
        (case imageToGrid p (minDist / sqrt 2) of (gx, gy) \<Rightarrow>
           0 \<le> gx \<and> gx < g_w G \<and> 0 \<le> gy \<and> gy < g_h G \<and>
           g_cells G ! nat gx ! nat gy = p)) \<and>
     (\<forall>i j. i < j \<longrightarrow> j < length pts \<longrightarrow> minDist \<le> getDistance (pts ! i) (pts ! j))"

section \<open>Example inputs\<close>

text \<open>
  A generator whose state counts the draws made so far: the \<open>n\<close>-th draw of
  \<open>randomFloat\<close> is \<open>f n\<close>, and \<open>randomInt\<close> always answers \<open>0\<close>.
\<close>

definition countingPRNG :: "(nat \<Rightarrow> real) \<Rightarrow> nat PRNG" where
  "countingPRNG f =
     \<lparr>seeded = unat, randomFloat = (\<lambda>n. (f n, Suc n)), randomInt = (\<lambda>n m. (0, Suc n))\<rparr>"

definition exampleEnv :: "(nat, nat) Env" where
  \<comment> \<open>\<open>rand()\<close> always answers \<open>0\<close>: every cluster is a barn cluster of one barn\<close>
  "exampleEnv = \<lparr>prng = countingPRNG (\<lambda>n. 1 / 2), rand = (\<lambda>n. (0, Suc n)),
                  orientedAngle = (\<lambda>u v. 0)\<rparr>"

definition exampleOrigin :: Object where
  "exampleOrigin = \<lparr>obj_pos = (50, 50), obj_a = 2, obj_b = 2, obj_type = ''originPoint'',
                     obj_rotation = None\<rparr>"

definition exampleTree :: Object where
  \<comment> \<open>a tree of an earlier cluster, in the cell of the origin and 5 units from it\<close>
  "exampleTree = \<lparr>obj_pos = (55, 50), obj_a = 2, obj_b = 2, obj_type = ''tree'',
                   obj_rotation = None\<rparr>"

definition exampleBarn :: Object where
  "exampleBarn = \<lparr>obj_pos = (50, 50), obj_a = 2, obj_b = 2, obj_type = ''barn'',
                   obj_rotation = Some 0\<rparr>"

definition exampleMap :: "(nat, nat) MapGenerator" where
  "exampleMap = (newMapGenerator 1 1 0 0)
     \<lparr>m_grid := [[[], [], [], [], []], [[], [], [], [], []],
                 [[], [], [exampleOrigin, exampleTree], [], []],
                 [[], [], [], [], []], [[], [], [], [], []]]\<rparr>"

definition exampleMapAfter :: "(nat, nat) MapGenerator" where
  "exampleMapAfter = exampleMap
     \<lparr>m_grid := [[[], [], [], [], []], [[], [], [], [], []],
                 [[], [], [exampleOrigin, exampleTree, exampleBarn], [], []],
                 [[], [], [], [], []], [[], [], [], [], []]],
      m_PRNG := 2, m_rand := 3\<rparr>"

definition exampleNeighbour :: Object where
  \<comment> \<open>a tree in the cell to the right of the origin's cell, 11 units from the origin\<close>
  "exampleNeighbour = \<lparr>obj_pos = (61, 50), obj_a = 3, obj_b = 2, obj_type = ''tree'',
                        obj_rotation = None\<rparr>"

definition exampleMapRight :: "(nat, nat) MapGenerator" where
  "exampleMapRight = (newMapGenerator 1 1 0 0)
     \<lparr>m_grid := [[[], [], [], [], []], [[], [], [], [], []],
                 [[], [], [exampleOrigin], [], []],
                 [[], [], [exampleNeighbour], [], []], [[], [], [], [], []]]\<rparr>"

text \<open>
  The draws of a run that accepts three points: the first point \<open>(1/2, 1/2)\<close>, a
  candidate at radius \<open>minDist\<close> and angle \<open>0\<close>, and a candidate at radius \<open>minDist\<close> and
  angle \<open>pi\<close>. The grids are those of the run with \<open>minDist = 1/2\<close> on the square.
\<close>

definition exampleDraws :: "nat \<Rightarrow> real" where
  "exampleDraws n = (if n < 2 then 1 / 2 else if n = 6 then pi / (2 * 3.141592653589) else 0)"

definition exampleGrid1 :: Grid where
  "exampleGrid1 = \<lparr>g_w = 3, g_h = 3, g_cellSize = 1 / (2 * sqrt 2),
     g_cells = [[Point0, Point0, Point0], [Point0, mkPoint (1/2) (1/2), Point0],
                [Point0, Point0, Point0]]\<rparr>"

definition exampleGrid2 :: Grid where
  "exampleGrid2 = \<lparr>g_w = 3, g_h = 3, g_cellSize = 1 / (2 * sqrt 2),
     g_cells = [[Point0, Point0, Point0], [Point0, mkPoint (1/2) (1/2), Point0],
                [Point0, mkPoint 1 (1/2), Point0]]\<rparr>"

definition exampleGrid3 :: Grid where
  "exampleGrid3 = \<lparr>g_w = 3, g_h = 3, g_cellSize = 1 / (2 * sqrt 2),
     g_cells = [[Point0, mkPoint 0 (1/2), Point0], [Point0, mkPoint (1/2) (1/2), Point0],
                [Point0, mkPoint 1 (1/2), Point0]]\<rparr>"

text \<open>
  The draws of a run on the square with \<open>minDist = sqrt 2 / 4\<close> (cells of size \<open>1/4\<close>)
  whose first candidate is the boundary point \<open>(1, 1/2)\<close>, and the grid of that run
  after the first point.
\<close>

definition boundaryDraws :: "nat \<Rightarrow> real" where
  "boundaryDraws n = (if n < 2 then 1 / 2 else if n = 3 then sqrt 2 - 1 else 0)"

definition boundaryGrid :: Grid where
  "boundaryGrid = \<lparr>g_w = 4, g_h = 4, g_cellSize = 1 / 4,
     g_cells = [[Point0, Point0, Point0, Point0], [Point0, Point0, Point0, Point0],
                [Point0, Point0, mkPoint (1/2) (1/2), Point0],
                [Point0, Point0, Point0, Point0]]\<rparr>"

text \<open>
  A run of the binary32 sampler on the square: \<open>numPoints = 3\<close>,
  \<open>newPointsCount = 1\<close>, \<open>minDist\<close> the binary32 number \<open>0x3ddc6780\<close>
  (\<open>112847 / 2^20\<close>). The first point has both coordinates \<open>0x3f69c629\<close>; the first
  candidate has \<open>R1 = 0\<close>, \<open>R2 = 1/8\<close>, the second \<open>R1 = 1/2\<close>, \<open>R2 = 5/8\<close>.
  \<open>edgeCell\<close> is the cell size \<open>0x3d9bd971\<close> of the run; the grids are those after
  each accepted point.
\<close>

definition edgeMinDist :: real where
  "edgeMinDist = 112847 / 1048576"

definition edgeCell :: real where
  "edgeCell = 10213745 / 134217728"

definition edgeDraws :: "nat \<Rightarrow> real" where
  "edgeDraws n = (if n < 2 then 15320617 / 16777216 else if n = 4 then 1 / 8
                 else if n = 6 then 1 / 2 else if n = 7 then 5 / 8 else 0)"

definition edgeP0 :: Point where "edgeP0 = mkPoint (15320617 / 16777216) (15320617 / 16777216)"

definition edgeP1 :: Point where "edgeP1 = mkPoint (16597335 / 16777216) (16597335 / 16777216)"

definition edgeP2 :: Point where "edgeP2 = mkPoint (7341129 / 8388608) (7341129 / 8388608)"

definition edgeGrid1 :: Grid where
  "edgeGrid1 = \<lparr>g_w = 14, g_h = 14, g_cellSize = edgeCell,
     g_cells = (replicate 14 (replicate 14 Point0))[12 := (replicate 14 Point0)[12 := edgeP0]]\<rparr>"

definition edgeGrid2 :: Grid where
  "edgeGrid2 = \<lparr>g_w = 14, g_h = 14, g_cellSize = edgeCell,
     g_cells = (replicate 14 (replicate 14 Point0))[12 := (replicate 14 Point0)[12 := edgeP1]]\<rparr>"

definition edgeGrid3 :: Grid where
  "edgeGrid3 = \<lparr>g_w = 14, g_h = 14, g_cellSize = edgeCell,
     g_cells = (replicate 14 (replicate 14 Point0))
                 [12 := (replicate 14 Point0)[12 := edgeP1],
                  11 := (replicate 14 Point0)[11 := edgeP2]]\<rparr>"

definition edgeFinal :: "nat sampler" where
  "edgeFinal = \<lparr>samplePoints = [edgeP0, edgeP1, edgeP2], processList = [edgeP2],
                grid = edgeGrid3, gen = 8\<rparr>"

section \<open>Evaluation on the example inputs\<close>

lemma list_update_Cons_numeral: "(x # xs)[numeral k := y] = x # xs[pred_numeral k := y]"
  by (simp add: numeral_eq_Suc)

lemma ceiling_sqrt2: "\<lceil>sqrt 2\<rceil> = 2"
proof -
  have "1 < sqrt 2" by simp
  moreover have "sqrt 2 < 2" by (rule sqrt2_less_2)
  ultimately show ?thesis by (simp add: ceiling_eq_iff)
qed

lemma floor_half_sqrt2: "\<lfloor>sqrt 2 / 2\<rfloor> = 0"
proof -
  have "sqrt 2 < 2" by (rule sqrt2_less_2)
  then show ?thesis by (simp add: floor_eq_iff)
qed

lemma mainLoop_skip:
  "numPoints \<le> 1 \<Longrightarrow>
   mainLoop R numPoints k isCircle minDist cellSize (initialSampler G p g) =
   Inr (initialSampler G p g)"
  by (simp add: initialSampler_def mainLoop.simps)

lemma firstPointLoop_half:
  "firstPointLoop (countingPRNG (\<lambda>n. 1 / 2)) isCircle g =
     Some (mkPoint (1 / 2) (1 / 2), Suc (Suc g))"
  by (subst firstPointLoop.simps)
     (simp add: countingPRNG_def canFit_def isInCircle_def isInRectangle_def mkPoint_def)

lemma effectiveMinDist_one: "effectiveMinDist (Suc 0) (- 1) = 1"
  by (simp add: effectiveMinDist_def)

lemma gridUndefined_one: "\<not> gridUndefined (Suc 0) (- 1)"
  by (simp add: gridUndefined_def effectiveMinDist_one ceiling_sqrt2)

lemma insert_grid_centre:
  "insert_grid (mkGrid 2 2 (1 / sqrt 2)) (mkPoint (1 / 2) (1 / 2)) =
     Inr \<lparr>g_w = 2, g_h = 2, g_cellSize = 1 / sqrt 2,
          g_cells = [[mkPoint (1 / 2) (1 / 2), Point0], [Point0, Point0]]\<rparr>"
  by (simp add: insert_grid_def mkGrid_def imageToGrid_def int_cast_def mkPoint_def
      floor_half_sqrt2 numeral_2_eq_2)

lemma samplerRun_one:
  "samplerRun (countingPRNG (\<lambda>n. 1 / 2)) (Suc 0) g k True (- 1) =
     Some (Inr (initialSampler
        \<lparr>g_w = 2, g_h = 2, g_cellSize = 1 / sqrt 2,
          g_cells = [[mkPoint (1 / 2) (1 / 2), Point0], [Point0, Point0]]\<rparr>
        (mkPoint (1 / 2) (1 / 2)) (Suc (Suc g))))"
  by (simp add: samplerRun_def effectiveMinDist_one gridUndefined_one ceiling_sqrt2
      firstPointLoop_half insert_grid_centre mainLoop_skip)

lemma generatePoissonPoints_one:
  "generatePoissonPoints (countingPRNG (\<lambda>n. 1 / 2)) (Suc 0) g k True (- 1) =
     Some (Inr ([mkPoint (1 / 2) (1 / 2)], Suc (Suc g)))"
  by (simp add: generatePoissonPoints_def samplerRun_one initialSampler_def)

lemma GenerateCluster_example:
  "GenerateCluster exampleEnv exampleMap exampleOrigin = Some (Inr exampleMapAfter)"
proof -
  have k: "clusterKind exampleEnv exampleMap = (True, 20, 1)"
    by (simp add: clusterKind_def exampleEnv_def exampleMap_def newMapGenerator_def)
  have sc: "scannedCells exampleMap exampleOrigin = [(1, 1), (1, 2), (2, 1), (2, 2)]"
    by (simp add: scannedCells_def exampleMap_def exampleOrigin_def newMapGenerator_def
        upto.simps)
  have cs: "clearingScan (m_grid exampleMap) exampleOrigin 20 [(1, 1), (1, 2), (2, 1), (2, 2)] =
      Inr [exampleOrigin\<lparr>obj_type := ''default''\<rparr>, exampleTree\<lparr>obj_type := ''default''\<rparr>]"
    by (simp add: exampleMap_def cellAt_def clearingBody_def distance_def exampleOrigin_def
        exampleTree_def numeral_2_eq_2)
  have n: "clusterCount exampleEnv True 1 = (1, 2)"
    by (simp add: clusterCount_def exampleEnv_def)
  have g: "generatePoissonPoints (prng exampleEnv) 1 (m_PRNG exampleMap) 70 True (- 1) =
      Some (Inr ([mkPoint (1 / 2) (1 / 2)], 2))"
    by (simp add: exampleEnv_def exampleMap_def newMapGenerator_def generatePoissonPoints_one)
  have p: "placeMembers exampleEnv True exampleOrigin 20
             (exampleMap\<lparr>m_PRNG := 2, m_rand := 2\<rparr>) [mkPoint (1 / 2) (1 / 2)] =
      Inr exampleMapAfter"
    by (simp add: placeMember_def memberPos_def exampleOrigin_def exampleMap_def
        exampleMapAfter_def exampleBarn_def newMapGenerator_def mkPoint_def exampleEnv_def
        pushBack_def list_update_Cons_numeral Let_def)
  show ?thesis
    by (simp only: GenerateCluster_def k sc cs n g p prod.case sum.case option.case)
qed

lemma floor_sqrt2: "\<lfloor>sqrt 2\<rfloor> = 1"
proof -
  have "1 < sqrt 2" by simp
  moreover have "sqrt 2 < 2" by (rule sqrt2_less_2)
  ultimately show ?thesis by (simp add: floor_eq_iff)
qed

lemma sqrt2_bounds: "14/10 < sqrt 2" "sqrt 2 < 15/10"
proof -
  have "(14/10)\<^sup>2 < (2::real)" by (simp add: power2_eq_square)
  then show "14/10 < sqrt 2" by (rule real_less_rsqrt)
  have "(2::real) < (15/10)\<^sup>2" by (simp add: power2_eq_square)
  then show "sqrt 2 < 15/10" by (intro real_less_lsqrt) simp_all
qed

lemma floor_2sqrt2: "\<lfloor>2 * sqrt 2\<rfloor> = 2"
  using sqrt2_bounds by (simp add: floor_eq_iff)

lemma ceiling_2sqrt2: "\<lceil>2 * sqrt 2\<rceil> = 3"
  using sqrt2_bounds by (simp add: ceiling_eq_iff)

lemma example_cell_first: "imageToGrid (mkPoint (1/2) (1/2)) (1 / (2 * sqrt 2)) = (1, 1)"
  by (simp add: imageToGrid_def int_cast_def mkPoint_def floor_sqrt2)

lemma example_cell_right: "imageToGrid (mkPoint 1 (1/2)) (1 / (2 * sqrt 2)) = (2, 1)"
  by (simp add: imageToGrid_def int_cast_def mkPoint_def floor_sqrt2 floor_2sqrt2 mult.commute)

lemma example_cell_left: "imageToGrid (mkPoint 0 (1/2)) (1 / (2 * sqrt 2)) = (0, 1)"
  by (simp add: imageToGrid_def int_cast_def mkPoint_def floor_sqrt2)

lemma example_candidate_right: "generateRandomPointAround (countingPRNG exampleDraws) (mkPoint (1/2) (1/2)) (1/2) 3
   = (mkPoint 1 (1/2), 5)"
  by (simp add: generateRandomPointAround_def countingPRNG_def exampleDraws_def mkPoint_def)

lemma example_candidate_left: "generateRandomPointAround (countingPRNG exampleDraws) (mkPoint (1/2) (1/2)) (1/2) 5
   = (mkPoint 0 (1/2), 7)"
  by (simp add: generateRandomPointAround_def countingPRNG_def exampleDraws_def mkPoint_def)

lemma upto_10: "[i - 5 .. i + 5 - 1] = [i - 5, i - 4, i - 3, i - 2, i - 1, i, i + 1, i + 2, i + 3, i + 4]"
  by (simp add: upto.simps)

lemma sqrt_quarter: "sqrt (1 / 4) = 1 / 2"
  by (rule real_sqrt_unique) (simp_all add: power2_eq_square)

lemma example_no_neighbour_right: "\<not> isInNeighbourhood exampleGrid1 (mkPoint 1 (1/2)) (1/2) (1 / (2 * sqrt 2))"
  unfolding isInNeighbourhood_def example_cell_right prod.case D_cells_def upto_10
  by (simp add: exampleGrid1_def Point0_def mkPoint_def getDistance_def sqrt_quarter)

lemma example_no_neighbour_left: "\<not> isInNeighbourhood exampleGrid2 (mkPoint 0 (1/2)) (1/2) (1 / (2 * sqrt 2))"
  unfolding isInNeighbourhood_def example_cell_left prod.case D_cells_def upto_10
  by (simp add: exampleGrid2_def Point0_def mkPoint_def getDistance_def sqrt_quarter)

lemma example_insert_first: "insert_grid (mkGrid 3 3 (1 / (2 * sqrt 2))) (mkPoint (1/2) (1/2)) = Inr exampleGrid1"
proof -
  have c: "g_cellSize (mkGrid 3 3 (1 / (2 * sqrt 2))) = 1 / (2 * sqrt 2)" by (simp add: mkGrid_def)
  show ?thesis
    unfolding insert_grid_def c example_cell_first
    by (simp add: mkGrid_def exampleGrid1_def numeral_3_eq_3)
qed

lemma example_insert_right: "insert_grid exampleGrid1 (mkPoint 1 (1/2)) = Inr exampleGrid2"
proof -
  have c: "g_cellSize exampleGrid1 = 1 / (2 * sqrt 2)" by (simp add: exampleGrid1_def)
  show ?thesis
    unfolding insert_grid_def c example_cell_right
    by (simp add: exampleGrid1_def exampleGrid2_def list_update_Cons_numeral)
qed

lemma example_insert_left: "insert_grid exampleGrid2 (mkPoint 0 (1/2)) = Inr exampleGrid3"
proof -
  have c: "g_cellSize exampleGrid2 = 1 / (2 * sqrt 2)" by (simp add: exampleGrid2_def)
  show ?thesis
    unfolding insert_grid_def c example_cell_left
    by (simp add: exampleGrid2_def exampleGrid3_def)
qed

lemma example_firstPoint: "firstPointLoop (countingPRNG exampleDraws) False 0 = Some (mkPoint (1/2) (1/2), 2)"
  by (subst firstPointLoop.simps)
     (simp add: countingPRNG_def exampleDraws_def canFit_def isInRectangle_def mkPoint_def)

lemma example_candidates:
  "candidates (countingPRNG exampleDraws) (mkPoint (1/2) (1/2)) False (1/2) (1 / (2 * sqrt 2)) (Suc (Suc 0))
     \<lparr>samplePoints = [mkPoint (1/2) (1/2)], processList = [], grid = exampleGrid1, gen = 3\<rparr> =
   Inr \<lparr>samplePoints = [mkPoint (1/2) (1/2), mkPoint 1 (1/2), mkPoint 0 (1/2)],
        processList = [mkPoint 1 (1/2), mkPoint 0 (1/2)], grid = exampleGrid3, gen = 7\<rparr>"
proof -
  have f1: "canFit False (mkPoint 1 (1/2))" by (simp add: canFit_def isInRectangle_def mkPoint_def)
  have f2: "canFit False (mkPoint 0 (1/2))" by (simp add: canFit_def isInRectangle_def mkPoint_def)
  show ?thesis
    by (simp add: example_candidate_right example_candidate_left f1 f2 example_no_neighbour_right example_no_neighbour_left example_insert_right example_insert_left)
qed

lemma example_pop: "popRandom (countingPRNG exampleDraws) [mkPoint (1/2) (1/2)] 2 = Inr (mkPoint (1/2) (1/2), [], 3)"
  by (simp add: popRandom_def countingPRNG_def)

lemma example_mainLoop:
  "mainLoop (countingPRNG exampleDraws) 2 2 False (1/2) (1 / (2 * sqrt 2))
     (initialSampler exampleGrid1 (mkPoint (1/2) (1/2)) 2) =
   Inr \<lparr>samplePoints = [mkPoint (1/2) (1/2), mkPoint 1 (1/2), mkPoint 0 (1/2)],
        processList = [mkPoint 1 (1/2), mkPoint 0 (1/2)], grid = exampleGrid3, gen = 7\<rparr>"
  apply (subst mainLoop.simps)
  apply (simp add: initialSampler_def example_pop example_candidates[folded numeral_2_eq_2])
  apply (subst mainLoop.simps)
  apply simp
  done

lemma example_samplerRun:
  "samplerRun (countingPRNG exampleDraws) 2 0 2 False (1/2) =
   Some (Inr \<lparr>samplePoints = [mkPoint (1/2) (1/2), mkPoint 1 (1/2), mkPoint 0 (1/2)],
        processList = [mkPoint 1 (1/2), mkPoint 0 (1/2)], grid = exampleGrid3, gen = 7\<rparr>)"
proof -
  have e: "effectiveMinDist 2 (1/2) = 1/2" by (simp add: effectiveMinDist_def)
  have n: "(1::real) / 2 / sqrt 2 = 1 / (2 * sqrt 2)" by simp
  have c: "\<lceil>1 / (1 / (2 * sqrt 2))\<rceil> = 3" using ceiling_2sqrt2 by (simp add: mult.commute)
  have u: "\<not> gridUndefined 2 (1/2)" unfolding gridUndefined_def e n c by simp
  show ?thesis
    unfolding samplerRun_def e Let_def n c
    by (simp only: u if_False example_firstPoint option.case prod.case example_insert_first sum.case example_mainLoop)
qed

lemma example_three_points:
  "generatePoissonPoints (countingPRNG exampleDraws) 2 0 2 False (1/2) =
     Some (Inr ([mkPoint (1/2) (1/2), mkPoint 1 (1/2), mkPoint 0 (1/2)], 7))"
  by (simp add: generatePoissonPoints_def example_samplerRun)

lemma example_zero_requested:
  "generatePoissonPoints (countingPRNG exampleDraws) 0 0 2 False (1/2) =
     Some (Inr ([mkPoint (1/2) (1/2)], 2))"
proof -
  have e: "effectiveMinDist 0 (1/2) = 1/2" by (simp add: effectiveMinDist_def)
  have n: "(1::real) / 2 / sqrt 2 = 1 / (2 * sqrt 2)" by simp
  have c: "\<lceil>1 / (1 / (2 * sqrt 2))\<rceil> = 3" using ceiling_2sqrt2 by (simp add: mult.commute)
  have u: "\<not> gridUndefined 0 (1/2)" unfolding gridUndefined_def e n c by simp
  have l: "mainLoop (countingPRNG exampleDraws) 0 2 False (1/2) (1 / (2 * sqrt 2))
     (initialSampler exampleGrid1 (mkPoint (1/2) (1/2)) 2) = Inr (initialSampler exampleGrid1 (mkPoint (1/2) (1/2)) 2)"
    by (rule mainLoop_skip) simp
  have "samplerRun (countingPRNG exampleDraws) 0 0 2 False (1/2) =
      Some (Inr (initialSampler exampleGrid1 (mkPoint (1/2) (1/2)) 2))"
    unfolding samplerRun_def e Let_def n c
    by (simp only: u if_False example_firstPoint option.case prod.case example_insert_first sum.case l)
  then show ?thesis by (simp add: generatePoissonPoints_def initialSampler_def)
qed

lemma boundary_binPoints:
  "binPoints exampleEnv (newMapGenerator 1 1 0 0) [mkPoint 1 (1/2)] = Inl OutOfRangeException"
  by (simp add: binPoint_def newMapGenerator_def mkPoint_def exampleEnv_def pushBack_def Let_def)

lemma boundary_firstPoint: "firstPointLoop (countingPRNG boundaryDraws) False 0 = Some (mkPoint (1/2) (1/2), 2)"
  by (subst firstPointLoop.simps)
     (simp add: countingPRNG_def boundaryDraws_def canFit_def isInRectangle_def mkPoint_def)

lemma boundary_cell_first: "imageToGrid (mkPoint (1/2) (1/2)) (1/4) = (2, 2)"
  by (simp add: imageToGrid_def int_cast_def mkPoint_def)

lemma boundary_cell_right: "imageToGrid (mkPoint 1 (1/2)) (1/4) = (4, 2)"
  by (simp add: imageToGrid_def int_cast_def mkPoint_def)

lemma boundary_insert_first: "insert_grid (mkGrid 4 4 (1/4)) (mkPoint (1/2) (1/2)) = Inr boundaryGrid"
proof -
  have c: "g_cellSize (mkGrid 4 4 (1/4)) = 1/4" by (simp add: mkGrid_def)
  show ?thesis
    unfolding insert_grid_def c boundary_cell_first
    by (simp add: mkGrid_def boundaryGrid_def eval_nat_numeral)
qed

lemma boundary_insert_right: "insert_grid boundaryGrid (mkPoint 1 (1/2)) = Inl IndexOutOfBounds"
proof -
  have c: "g_cellSize boundaryGrid = 1/4" by (simp add: boundaryGrid_def)
  show ?thesis
    unfolding insert_grid_def c boundary_cell_right
    by (simp add: boundaryGrid_def)
qed

lemma boundary_candidate: "generateRandomPointAround (countingPRNG boundaryDraws) (mkPoint (1/2) (1/2)) (sqrt 2 / 4) 3
   = (mkPoint 1 (1/2), 5)"
  by (simp add: generateRandomPointAround_def countingPRNG_def boundaryDraws_def mkPoint_def)

lemma boundary_no_neighbour: "\<not> isInNeighbourhood boundaryGrid (mkPoint 1 (1/2)) (sqrt 2 / 4) (1/4)"
proof -
  have "\<not> 2 < sqrt 2" using sqrt2_less_2 by simp
  then show ?thesis
    unfolding isInNeighbourhood_def boundary_cell_right prod.case D_cells_def upto_10
    by (simp add: boundaryGrid_def Point0_def mkPoint_def getDistance_def sqrt_quarter)
qed

lemma boundary_candidates:
  "candidates (countingPRNG boundaryDraws) (mkPoint (1/2) (1/2)) False (sqrt 2 / 4) (1/4) (Suc 0)
     \<lparr>samplePoints = [mkPoint (1/2) (1/2)], processList = [], grid = boundaryGrid, gen = 3\<rparr> =
   Inl IndexOutOfBounds"
proof -
  have f1: "canFit False (mkPoint 1 (1/2))" by (simp add: canFit_def isInRectangle_def mkPoint_def)
  show ?thesis
    by (simp add: boundary_candidate f1 boundary_no_neighbour boundary_insert_right)
qed

lemma boundary_pop: "popRandom (countingPRNG boundaryDraws) [mkPoint (1/2) (1/2)] 2 = Inr (mkPoint (1/2) (1/2), [], 3)"
  by (simp add: popRandom_def countingPRNG_def)

lemma boundary_mainLoop:
  "mainLoop (countingPRNG boundaryDraws) 2 1 False (sqrt 2 / 4) (1/4)
     (initialSampler boundaryGrid (mkPoint (1/2) (1/2)) 2) = Inl IndexOutOfBounds"
  by (subst mainLoop.simps) (simp add: initialSampler_def boundary_pop boundary_candidates del: candidates.simps)

lemma boundary_samplerRun:
  "samplerRun (countingPRNG boundaryDraws) 2 0 1 False (sqrt 2 / 4) = Some (Inl IndexOutOfBounds)"
proof -
  have e: "effectiveMinDist 2 (sqrt 2 / 4) = sqrt 2 / 4" by (simp add: effectiveMinDist_def)
  have n: "sqrt 2 / 4 / sqrt 2 = 1 / 4" by simp
  have c: "\<lceil>1 / (1 / 4 :: real)\<rceil> = 4" by simp
  have u: "\<not> gridUndefined 2 (sqrt 2 / 4)" unfolding gridUndefined_def e n c by simp
  show ?thesis
    unfolding samplerRun_def e Let_def n c
    by (simp only: u if_False boundary_firstPoint option.case prod.case boundary_insert_first sum.case boundary_mainLoop)
qed

section \<open>The frame of GenerateCluster\<close>

lemma pushBack_extends:
  assumes "pushBack G a b point = Inr G'"
  shows "list_all2 (list_all2 prefix) G G'"
proof -
  from assms have ab: "0 \<le> a" "nat a < length G" "0 \<le> b" "nat b < length (G ! nat a)"
    and G': "G' = G[nat a := (G ! nat a)[nat b := G ! nat a ! nat b @ [point]]]"
    by (auto simp: pushBack_def split: if_splits)
  have row: "list_all2 prefix (G ! nat a) ((G ! nat a)[nat b := G ! nat a ! nat b @ [point]])"
    using ab by (auto simp: list_all2_conv_all_nth nth_list_update)
  have "list_all2 prefix r r" for r :: "Object list list"
    by (simp add: list_all2_conv_all_nth)
  with row ab show ?thesis
    unfolding G' by (auto simp: list_all2_conv_all_nth nth_list_update)
qed

lemma extends_refl: "list_all2 (list_all2 prefix) (G :: Object list list list) G"
  by (simp add: list_all2_conv_all_nth)

lemma extends_trans:
  "list_all2 (list_all2 prefix) (G :: Object list list list) G' \<Longrightarrow>
   list_all2 (list_all2 prefix) G' G'' \<Longrightarrow> list_all2 (list_all2 prefix) G G''"
  by (rule list_all2_trans[of "list_all2 prefix" "list_all2 prefix" "list_all2 prefix"])
     (rule list_all2_trans[of prefix prefix prefix], auto)

lemma placeMember_extends:
  "placeMember E isBarn origin radius M p = Inr M' \<Longrightarrow>
   list_all2 (list_all2 prefix) (m_grid M) (m_grid M')"
  by (auto simp: placeMember_def Let_def extends_refl split: if_splits prod.splits sum.splits
           dest: pushBack_extends)

lemma placeMembers_extends:
  "placeMembers E isBarn origin radius M ps = Inr M' \<Longrightarrow>
   list_all2 (list_all2 prefix) (m_grid M) (m_grid M')"
proof (induction ps arbitrary: M)
  case Nil
  then show ?case by (simp add: extends_refl)
next
  case (Cons p ps)
  then show ?case
    by (auto split: sum.splits dest!: placeMember_extends intro: extends_trans)
qed

text \<open>
  C10. Whenever \<open>GenerateCluster\<close> returns, the grid has the same columns and cells as
  before, and the content of every cell before the call is a prefix of its content
  after the call: the elements already stored keep their place and all their fields,
  and the call only appends.
\<close>

theorem GenerateCluster_frame:
  assumes "GenerateCluster E M origin = Some (Inr M')"
  shows "list_all2 (list_all2 prefix) (m_grid M) (m_grid M')"
  using assms
  by (auto simp: GenerateCluster_def split: prod.splits sum.splits option.splits
           dest: placeMembers_extends)

theorem GenerateCluster_frame_witness:
  "GenerateCluster exampleEnv exampleMap exampleOrigin = Some (Inr exampleMapAfter) \<and>
   list_all2 (list_all2 prefix) (m_grid exampleMap) (m_grid exampleMapAfter)"
  by (rule conjI[OF GenerateCluster_example GenerateCluster_frame[OF GenerateCluster_example]])

section \<open>The clearing pass of GenerateCluster\<close>

text \<open>
  C2. On the example map the tree lies in a scanned cell, 5 units from the origin, and
  the clearing radius is 20. After \<open>GenerateCluster\<close> the tree is still stored with the
  type \<open>tree\<close>, no stored element has the type \<open>default\<close>, and the last pass of
  \<open>GenerateMap\<close> instantiates the tree.
\<close>

theorem clearing_does_not_recategorize:
  "clusterKind exampleEnv exampleMap = (True, 20, 1) \<and>
   (2, 2) \<in> set (scannedCells exampleMap exampleOrigin) \<and>
   cellAt (m_grid exampleMap) 2 2 = Inr [exampleOrigin, exampleTree] \<and>
   distance (obj_pos exampleOrigin) (obj_pos exampleTree) < 20 \<and>
   GenerateCluster exampleEnv exampleMap exampleOrigin = Some (Inr exampleMapAfter) \<and>
   cellAt (m_grid exampleMapAfter) 2 2 = Inr [exampleOrigin, exampleTree, exampleBarn] \<and>
   obj_type exampleTree = ''tree'' \<and>
   finalPass exampleMapAfter = Inr [exampleTree, exampleBarn]"
proof -
  have k: "clusterKind exampleEnv exampleMap = (True, 20, 1)"
    by (simp add: clusterKind_def exampleEnv_def exampleMap_def newMapGenerator_def)
  have sc: "(2, 2) \<in> set (scannedCells exampleMap exampleOrigin)"
    by (simp add: scannedCells_def exampleMap_def exampleOrigin_def newMapGenerator_def
        upto.simps)
  have c1: "cellAt (m_grid exampleMap) 2 2 = Inr [exampleOrigin, exampleTree]"
    by (simp add: exampleMap_def cellAt_def)
  have d: "distance (obj_pos exampleOrigin) (obj_pos exampleTree) < 20"
    by (simp add: distance_def exampleOrigin_def exampleTree_def)
  have c2: "cellAt (m_grid exampleMapAfter) 2 2 = Inr [exampleOrigin, exampleTree, exampleBarn]"
    by (simp add: exampleMapAfter_def cellAt_def)
  have t: "obj_type exampleTree = ''tree''"
    by (simp add: exampleTree_def)
  have f: "finalPass exampleMapAfter = Inr [exampleTree, exampleBarn]"
    by (simp add: finalPass_def exampleMapAfter_def exampleMap_def newMapGenerator_def
        upto.simps cellAt_def instantiated_def exampleOrigin_def exampleTree_def
        exampleBarn_def)
  from k sc c1 d GenerateCluster_example c2 t f show ?thesis by blast
qed

text \<open>
  C5. With the origin in cell \<open>(2, 2)\<close> of a grid of 5 by 5 cells, the scan visits the
  cells \<open>(1, 1)\<close>, \<open>(1, 2)\<close>, \<open>(2, 1)\<close> and \<open>(2, 2)\<close> only. The tree in the adjacent cell
  \<open>(3, 2)\<close>, 11 units from the origin with a clearing radius of 20, is not among the
  placements that the scan tests.
\<close>

theorem clearing_scan_window:
  "scannedCells exampleMapRight exampleOrigin = [(1, 1), (1, 2), (2, 1), (2, 2)] \<and>
   cellAt (m_grid exampleMapRight) 3 2 = Inr [exampleNeighbour] \<and>
   distance (obj_pos exampleOrigin) (obj_pos exampleNeighbour) < 20 \<and>
   clearingScan (m_grid exampleMapRight) exampleOrigin 20
     (scannedCells exampleMapRight exampleOrigin) =
     Inr [exampleOrigin\<lparr>obj_type := ''default''\<rparr>]"
proof -
  have sc: "scannedCells exampleMapRight exampleOrigin = [(1, 1), (1, 2), (2, 1), (2, 2)]"
    by (simp add: scannedCells_def exampleMapRight_def exampleOrigin_def newMapGenerator_def
        upto.simps)
  have c: "cellAt (m_grid exampleMapRight) 3 2 = Inr [exampleNeighbour]"
    by (simp add: exampleMapRight_def cellAt_def)
  have d: "distance (obj_pos exampleOrigin) (obj_pos exampleNeighbour) < 20"
    by (simp add: distance_def exampleOrigin_def exampleNeighbour_def)
  have cs: "clearingScan (m_grid exampleMapRight) exampleOrigin 20
      [(1, 1), (1, 2), (2, 1), (2, 2)] = Inr [exampleOrigin\<lparr>obj_type := ''default''\<rparr>]"
    by (simp add: exampleMapRight_def cellAt_def clearingBody_def distance_def
        exampleOrigin_def numeral_2_eq_2)
  from sc c d cs show ?thesis by simp
qed

section \<open>Geometry of the grid\<close>

lemma canFit_unit:
  assumes "canFit isCircle p"
  shows "0 \<le> px p \<and> px p \<le> 1 \<and> 0 \<le> py p \<and> py p \<le> 1"
proof (cases isCircle)
  case False
  with assms show ?thesis by (simp add: canFit_def isInRectangle_def)
next
  case True
  with assms have c: "(px p - 1/2) * (px p - 1/2) + (py p - 1/2) * (py p - 1/2) \<le> 1/4"
    by (simp add: canFit_def isInCircle_def Let_def)
  have sq: "0 \<le> (py p - 1/2) * (py p - 1/2)" "0 \<le> (px p - 1/2) * (px p - 1/2)" by simp_all
  have x: "(px p - 1/2) * (px p - 1/2) \<le> 1/2 * (1/2)" using c sq by linarith
  have y: "(py p - 1/2) * (py p - 1/2) \<le> 1/2 * (1/2)" using c sq by linarith
  have "\<bar>px p - 1/2\<bar>\<^sup>2 \<le> (1/2)\<^sup>2" using x by (simp add: power2_eq_square)
  then have "\<bar>px p - 1/2\<bar> \<le> 1/2" by (rule power2_le_imp_le) simp
  moreover
  have "\<bar>py p - 1/2\<bar>\<^sup>2 \<le> (1/2)\<^sup>2" using y by (simp add: power2_eq_square)
  then have "\<bar>py p - 1/2\<bar> \<le> 1/2" by (rule power2_le_imp_le) simp
  ultimately show ?thesis by linarith
qed

lemma floor_diff_le2:
  fixes a b c :: real
  assumes "0 < c" "\<bar>a - b\<bar> < sqrt 2 * c"
  shows "\<bar>\<lfloor>a / c\<rfloor> - \<lfloor>b / c\<rfloor>\<bar> \<le> 2"
proof -
  have "\<bar>a / c - b / c\<bar> = \<bar>a - b\<bar> / c" using assms(1) by (simp add: diff_divide_distrib[symmetric])
  also have "\<dots> < sqrt 2" using assms by (simp add: pos_divide_less_eq)
  also have "\<dots> < 2" by (rule sqrt2_less_2)
  finally have d: "\<bar>a / c - b / c\<bar> < 2" .
  have "a / c < b / c + 2" "b / c < a / c + 2" using d by (auto simp: abs_less_iff)
  then show ?thesis by linarith
qed

lemma getDistance_coords:
  assumes "getDistance p q < m"
  shows "\<bar>px p - px q\<bar> < m \<and> \<bar>py p - py q\<bar> < m"
proof -
  have "\<bar>px p - px q\<bar> = sqrt ((px p - px q) * (px p - px q))" by simp
  also have "\<dots> \<le> getDistance p q" unfolding getDistance_def by (rule real_sqrt_le_mono) simp
  finally have x: "\<bar>px p - px q\<bar> \<le> getDistance p q" .
  have "\<bar>py p - py q\<bar> = sqrt ((py p - py q) * (py p - py q))" by simp
  also have "\<dots> \<le> getDistance p q" unfolding getDistance_def by (rule real_sqrt_le_mono) simp
  finally have y: "\<bar>py p - py q\<bar> \<le> getDistance p q" .
  from x y assms show ?thesis by simp
qed

lemma same_floor_close:
  fixes a b c :: real
  assumes "0 < c" "\<lfloor>a / c\<rfloor> = \<lfloor>b / c\<rfloor>"
  shows "(a - b) * (a - b) < c * c"
proof -
  have "\<bar>a / c - b / c\<bar> < 1" using assms(2) by linarith
  then have "\<bar>a - b\<bar> / c < 1" using assms(1) by (simp add: diff_divide_distrib[symmetric])
  then have "\<bar>a - b\<bar> < c" using assms(1) by (simp add: pos_divide_less_eq)
  then have "\<bar>a - b\<bar> * \<bar>a - b\<bar> < c * c"
    by (intro mult_strict_mono') auto
  then show ?thesis by (simp add: abs_mult_self_eq)
qed

lemma imageToGrid_floor:
  "0 < c \<Longrightarrow> 0 \<le> px p \<Longrightarrow> 0 \<le> py p \<Longrightarrow>
   imageToGrid p c = (\<lfloor>px p / c\<rfloor>, \<lfloor>py p / c\<rfloor>)"
  by (simp add: imageToGrid_def int_cast_def)

lemma same_cell_close:
  assumes c: "0 < c" and nn: "0 \<le> px p" "0 \<le> py p" "0 \<le> px q" "0 \<le> py q"
    and cell: "imageToGrid p c = imageToGrid q c"
  shows "getDistance p q < sqrt 2 * c"
proof -
  from cell nn c have fx: "\<lfloor>px p / c\<rfloor> = \<lfloor>px q / c\<rfloor>" and fy: "\<lfloor>py p / c\<rfloor> = \<lfloor>py q / c\<rfloor>"
    by (simp_all add: imageToGrid_floor)
  from same_floor_close[OF c fx] same_floor_close[OF c fy]
  have "(px p - px q) * (px p - px q) + (py p - py q) * (py p - py q) < 2 * (c * c)" by simp
  then have "getDistance p q < sqrt (2 * (c * c))"
    unfolding getDistance_def by (rule real_sqrt_less_mono)
  also have "\<dots> = sqrt 2 * c" using c by (simp add: real_sqrt_mult)
  finally show ?thesis .
qed


lemma isInNeighbourhood_iff:
  "isInNeighbourhood G point minDist cellSize \<longleftrightarrow>
     (\<exists>i\<in>{fst (imageToGrid point cellSize) - D_cells ..
            fst (imageToGrid point cellSize) + D_cells - 1}.
      \<exists>j\<in>{snd (imageToGrid point cellSize) - D_cells ..
            snd (imageToGrid point cellSize) + D_cells - 1}.
        i \<ge> 0 \<and> i < g_w G \<and> j \<ge> 0 \<and> j < g_h G \<and>
        valid (g_cells G ! nat i ! nat j) \<and>
        getDistance (g_cells G ! nat i ! nat j) point < minDist)"
proof -
  obtain gx gy where g: "imageToGrid point cellSize = (gx, gy)"
    by (cases "imageToGrid point cellSize")
  show ?thesis
    unfolding isInNeighbourhood_def g
    by (simp only: list_ex_iff set_upto prod.case Let_def fst_conv snd_conv)
qed

lemma insert_grid_Inr:
  assumes "insert_grid G q = Inr G'"
  obtains gx gy where "imageToGrid q (g_cellSize G) = (gx, gy)"
    "0 \<le> gx" "nat gx < length (g_cells G)" "0 \<le> gy" "nat gy < length (g_cells G ! nat gx)"
    "G' = G\<lparr>g_cells := (g_cells G)[nat gx := (g_cells G ! nat gx)[nat gy := q]]\<rparr>"
  using assms by (auto simp: insert_grid_def split: prod.splits if_splits)

lemma gridInv_far:
  assumes inv: "gridInv m pts G" and m: "0 < m"
    and q: "0 \<le> px q" "0 \<le> py q"
    and nb: "\<not> isInNeighbourhood G q m (m / sqrt 2)"
    and p: "p \<in> set pts"
  shows "m \<le> getDistance p q"
proof (rule ccontr)
  assume "\<not> m \<le> getDistance p q"
  then have close: "getDistance p q < m" by simp
  let ?c = "m / sqrt 2"
  have c: "0 < ?c" using m by simp
  have mc: "sqrt 2 * ?c = m" by simp
  obtain gx gy where gp: "imageToGrid p ?c = (gx, gy)" by (cases "imageToGrid p ?c")
  from inv p gp have pin: "valid p" "0 \<le> px p" "0 \<le> py p" "0 \<le> gx" "gx < g_w G"
    "0 \<le> gy" "gy < g_h G" "g_cells G ! nat gx ! nat gy = p"
    by (auto simp: gridInv_def)
  from getDistance_coords[OF close] mc
  have dx: "\<bar>px p - px q\<bar> < sqrt 2 * ?c" and dy: "\<bar>py p - py q\<bar> < sqrt 2 * ?c" by simp_all
  from gp imageToGrid_floor[OF c pin(2,3)]
  have gxy: "gx = \<lfloor>px p / ?c\<rfloor>" "gy = \<lfloor>py p / ?c\<rfloor>"
    by simp_all
  have qxy: "fst (imageToGrid q ?c) = \<lfloor>px q / ?c\<rfloor>" "snd (imageToGrid q ?c) = \<lfloor>py q / ?c\<rfloor>"
    using imageToGrid_floor[OF c q] by simp_all
  from floor_diff_le2[OF c dx] floor_diff_le2[OF c dy] gxy qxy
  have "\<bar>gx - fst (imageToGrid q ?c)\<bar> \<le> 2" "\<bar>gy - snd (imageToGrid q ?c)\<bar> \<le> 2" by simp_all
  then have win: "gx \<in> {fst (imageToGrid q ?c) - D_cells .. fst (imageToGrid q ?c) + D_cells - 1}"
    "gy \<in> {snd (imageToGrid q ?c) - D_cells .. snd (imageToGrid q ?c) + D_cells - 1}"
    by (auto simp: D_cells_def)
  have "isInNeighbourhood G q m ?c"
    unfolding isInNeighbourhood_iff
    by (rule bexI[OF _ win(1)], rule bexI[OF _ win(2)]) (simp add: pin close)
  with nb show False by simp
qed

lemma gridInv_step:
  assumes inv: "gridInv m pts G" and m: "0 < m"
    and q: "valid q" "canFit isCircle q"
    and nb: "\<not> isInNeighbourhood G q m (m / sqrt 2)"
    and ins: "insert_grid G q = Inr G'"
  shows "gridInv m (pts @ [q]) G'"
proof -
  let ?c = "m / sqrt 2"
  have c: "0 < ?c" using m by simp
  from canFit_unit[OF q(2)] have qn: "0 \<le> px q" "0 \<le> py q" by simp_all
  have far: "m \<le> getDistance p q" if "p \<in> set pts" for p
    using gridInv_far[OF inv m qn nb that] .
  from inv have cs: "g_cellSize G = ?c" and len: "length (g_cells G) = nat (g_w G)"
    and rows: "\<forall>r\<in>set (g_cells G). length r = nat (g_h G)"
    by (simp_all add: gridInv_def)
  from ins obtain qx qy where qc: "imageToGrid q ?c = (qx, qy)"
    and qr: "0 \<le> qx" "nat qx < length (g_cells G)" "0 \<le> qy" "nat qy < length (g_cells G ! nat qx)"
    and G': "G' = G\<lparr>g_cells := (g_cells G)[nat qx := (g_cells G ! nat qx)[nat qy := q]]\<rparr>"
    by (rule insert_grid_Inr) (simp add: cs)
  from qr rows have rowlen: "length (g_cells G ! nat qx) = nat (g_h G)" by simp
  have dims: "length (g_cells G') = nat (g_w G')" "\<forall>r\<in>set (g_cells G'). length r = nat (g_h G')"
    using len rows rowlen by (auto simp: G' dest!: set_update_subset_insert[THEN subsetD])
  have old: "valid p \<and> 0 \<le> px p \<and> 0 \<le> py p \<and>
        (case imageToGrid p ?c of (gx, gy) \<Rightarrow>
           0 \<le> gx \<and> gx < g_w G' \<and> 0 \<le> gy \<and> gy < g_h G' \<and> g_cells G' ! nat gx ! nat gy = p)"
    if p: "p \<in> set pts" for p
  proof -
    obtain gx gy where gp: "imageToGrid p ?c = (gx, gy)" by (cases "imageToGrid p ?c")
    from inv p gp have pin: "valid p" "0 \<le> px p" "0 \<le> py p" "0 \<le> gx" "gx < g_w G"
      "0 \<le> gy" "gy < g_h G" "g_cells G ! nat gx ! nat gy = p"
      by (auto simp: gridInv_def)
    have ne: "(gx, gy) \<noteq> (qx, qy)"
    proof
      assume "(gx, gy) = (qx, qy)"
      with gp qc have "imageToGrid p ?c = imageToGrid q ?c" by simp
      from same_cell_close[OF c pin(2,3) qn this] have "getDistance p q < m" by simp
      with far[OF p] show False by simp
    qed
    have "g_cells G' ! nat gx ! nat gy = g_cells G ! nat gx ! nat gy"
    proof (cases "gx = qx")
      case True
      with ne have "gy \<noteq> qy" by simp
      with pin qr have "nat gy \<noteq> nat qy" by simp
      with True qr show ?thesis by (simp add: G')
    next
      case False
      with pin qr have "nat gx \<noteq> nat qx" by simp
      then show ?thesis by (simp add: G')
    qed
    with pin gp show ?thesis by (simp add: G')
  qed
  have new: "valid q \<and> 0 \<le> px q \<and> 0 \<le> py q \<and>
        (case imageToGrid q ?c of (gx, gy) \<Rightarrow>
           0 \<le> gx \<and> gx < g_w G' \<and> 0 \<le> gy \<and> gy < g_h G' \<and> g_cells G' ! nat gx ! nat gy = q)"
    using q(1) qn qc qr len rowlen by (auto simp: G')
  have pair: "m \<le> getDistance ((pts @ [q]) ! i) ((pts @ [q]) ! j)"
    if "i < j" "j < length (pts @ [q])" for i j
  proof (cases "j < length pts")
    case True
    with that inv show ?thesis by (simp add: gridInv_def nth_append)
  next
    case False
    with that have j: "j = length pts" and i: "i < length pts" by simp_all
    from far[of "pts ! i"] i show ?thesis by (simp add: j nth_append)
  qed
  show ?thesis
    unfolding gridInv_def
    using cs dims old new pair by (auto simp: G')
qed

section \<open>Invariants of the sampling loop\<close>

lemma generateRandomPointAround_valid:
  "generateRandomPointAround R p m g = (q, g') \<Longrightarrow> valid q"
  by (auto simp: generateRandomPointAround_def Let_def mkPoint_def split: prod.splits)

lemma candidates_invariant:
  assumes step: "\<And>pts G q G'. I pts G \<Longrightarrow> valid q \<Longrightarrow> canFit isCircle q \<Longrightarrow>
      \<not> isInNeighbourhood G q minDist cellSize \<Longrightarrow> insert_grid G q = Inr G' \<Longrightarrow> I (pts @ [q]) G'"
  shows "candidates R point isCircle minDist cellSize k s = Inr s' \<Longrightarrow>
         I (samplePoints s) (grid s) \<Longrightarrow> I (samplePoints s') (grid s')"
proof (induction k arbitrary: s)
  case 0
  then show ?case by simp
next
  case (Suc k)
  obtain q g' where q: "generateRandomPointAround R point minDist (gen s) = (q, g')"
    by (cases "generateRandomPointAround R point minDist (gen s)")
  show ?case
  proof (cases "canFit isCircle q \<and> \<not> isInNeighbourhood (grid s) q minDist cellSize")
    case True
    with Suc.prems(1) q obtain G' where ins: "insert_grid (grid s) q = Inr G'"
      and rec: "candidates R point isCircle minDist cellSize k
          \<lparr>samplePoints = samplePoints s @ [q], processList = processList s @ [q],
           grid = G', gen = g'\<rparr> = Inr s'"
      by (auto split: sum.splits)
    from step[OF Suc.prems(2) generateRandomPointAround_valid[OF q] _ _ ins] True
    have "I (samplePoints s @ [q]) G'" by simp
    with Suc.IH[OF rec] show ?thesis by simp
  next
    case False
    with Suc.prems(1) q
    have "candidates R point isCircle minDist cellSize k (s\<lparr>gen := g'\<rparr>) = Inr s'"
      by auto
    from Suc.IH[OF this] Suc.prems(2) show ?thesis by simp
  qed
qed

lemma mainLoop_unfold:
  assumes "mainLoop R numPoints k isCircle minDist cellSize s = Inr s'"
  shows "(\<not> (processList s \<noteq> [] \<and> length (samplePoints s) < numPoints) \<and> s' = s) \<or>
         (processList s \<noteq> [] \<and> length (samplePoints s) < numPoints \<and>
          (\<exists>point rest g' s1. popRandom R (processList s) (gen s) = Inr (point, rest, g') \<and>
             candidates R point isCircle minDist cellSize (nat k)
               (s\<lparr>processList := rest, gen := g'\<rparr>) = Inr s1 \<and>
             mainLoop R numPoints k isCircle minDist cellSize s1 = Inr s'))"
  using assms
  by (subst (asm) mainLoop.simps) (auto split: sum.splits prod.splits if_splits)

lemma mainLoop_invariant:
  "mainLoop R numPoints k isCircle minDist cellSize s = Inr s' \<Longrightarrow>
   I (samplePoints s) (grid s) \<Longrightarrow>
   (\<And>pts G q G'. I pts G \<Longrightarrow> valid q \<Longrightarrow> canFit isCircle q \<Longrightarrow>
      \<not> isInNeighbourhood G q minDist cellSize \<Longrightarrow> insert_grid G q = Inr G' \<Longrightarrow> I (pts @ [q]) G') \<Longrightarrow>
   I (samplePoints s') (grid s')"
proof (induction R numPoints k isCircle minDist cellSize s rule: mainLoop.induct)
  case (1 R numPoints k isCircle minDist cellSize s)
  note step = "1.prems"(3)
  from mainLoop_unfold[OF "1.prems"(1)] show ?case
  proof (elim disjE conjE exE)
    assume "s' = s"
    with "1.prems"(2) show ?thesis by simp
  next
    fix point rest g' s1
    assume go: "processList s \<noteq> []" "length (samplePoints s) < numPoints"
      and pop: "popRandom R (processList s) (gen s) = Inr (point, rest, g')"
      and cand: "candidates R point isCircle minDist cellSize (nat k)
                   (s\<lparr>processList := rest, gen := g'\<rparr>) = Inr s1"
      and rec: "mainLoop R numPoints k isCircle minDist cellSize s1 = Inr s'"
    have "I (samplePoints s1) (grid s1)"
    proof (rule candidates_invariant[where I = I, OF _ cand])
      show "I (samplePoints (s\<lparr>processList := rest, gen := g'\<rparr>))
              (grid (s\<lparr>processList := rest, gen := g'\<rparr>))"
        using "1.prems"(2) by simp
    qed (rule step, assumption+)
    from "1.IH"[OF conjI[OF go] pop refl refl cand rec this step] show ?thesis .
  qed
qed

lemma samplerRun_unfold:
  assumes "samplerRun R numPoints g k isCircle minDist = Some (Inr s)"
  obtains fp g1 G1 where "\<not> gridUndefined numPoints minDist"
    "firstPointLoop R isCircle g = Some (fp, g1)"
    "insert_grid (mkGrid \<lceil>1 / (effectiveMinDist numPoints minDist / sqrt 2)\<rceil>
        \<lceil>1 / (effectiveMinDist numPoints minDist / sqrt 2)\<rceil>
        (effectiveMinDist numPoints minDist / sqrt 2)) fp = Inr G1"
    "mainLoop R numPoints k isCircle (effectiveMinDist numPoints minDist)
        (effectiveMinDist numPoints minDist / sqrt 2) (initialSampler G1 fp g1) = Inr s"
  using assms
  by (auto simp: samplerRun_def Let_def split: if_splits option.splits sum.splits)

lemma firstPointLoop_fst:
  assumes "firstPointLoop R isCircle g = Some r"
  shows "canFit isCircle (fst r) \<and> valid (fst r)"
proof (rule firstPointLoop.raw_induct[where P = "\<lambda>R c g r. canFit c (fst r) \<and> valid (fst r)",
        OF _ assms])
  fix loop :: "'a PRNG \<Rightarrow> bool \<Rightarrow> 'a \<Rightarrow> (Point \<times> 'a) option" and R c g r
  assume "\<And>R c g r. loop R c g = Some r \<Longrightarrow> canFit c (fst r) \<and> valid (fst r)"
    and "(case randomFloat R g of (a, g1) \<Rightarrow>
           (case randomFloat R g1 of (b, g2) \<Rightarrow>
              if \<not> canFit c (mkPoint a b) then loop R c g2 else Some (mkPoint a b, g2))) = Some r"
  then show "canFit c (fst r) \<and> valid (fst r)"
    by (auto split: prod.splits if_splits simp: mkPoint_def)
qed

lemma effectiveMinDist_nonneg: "0 \<le> effectiveMinDist numPoints minDist"
  by (simp add: effectiveMinDist_def)

lemma effectiveMinDist_pos:
  "\<not> gridUndefined numPoints minDist \<Longrightarrow> 0 < effectiveMinDist numPoints minDist"
  using effectiveMinDist_nonneg[of numPoints minDist]
  by (auto simp: gridUndefined_def)

lemma mkGrid_empty: "\<not> isInNeighbourhood (mkGrid W W c) q m c'"
proof -
  have "\<not> valid (g_cells (mkGrid W W c) ! nat i ! nat j)" if "0 \<le> i" "i < W" "0 \<le> j" "j < W" for i j
    using that by (simp add: mkGrid_def Point0_def)
  then show ?thesis
    unfolding isInNeighbourhood_iff by (auto simp: mkGrid_def)
qed

lemma gridInv_mkGrid: "gridInv m [] (mkGrid W W (m / sqrt 2))"
  by (simp add: gridInv_def mkGrid_def)

lemma samplerRun_gridInv:
  assumes "samplerRun R numPoints g k isCircle minDist = Some (Inr s)"
  shows "gridInv (effectiveMinDist numPoints minDist) (samplePoints s) (grid s)"
proof -
  let ?m = "effectiveMinDist numPoints minDist"
  from assms obtain fp g1 G1 where def: "\<not> gridUndefined numPoints minDist"
    and fp: "firstPointLoop R isCircle g = Some (fp, g1)"
    and ins: "insert_grid (mkGrid \<lceil>1 / (?m / sqrt 2)\<rceil> \<lceil>1 / (?m / sqrt 2)\<rceil> (?m / sqrt 2)) fp = Inr G1"
    and loop: "mainLoop R numPoints k isCircle ?m (?m / sqrt 2) (initialSampler G1 fp g1) = Inr s"
    by (rule samplerRun_unfold)
  have m: "0 < ?m" using def by (rule effectiveMinDist_pos)
  from firstPointLoop_fst[OF fp] have f: "valid fp" "canFit isCircle fp" by simp_all
  have "gridInv ?m ([] @ [fp]) G1"
    by (rule gridInv_step[OF gridInv_mkGrid m f mkGrid_empty ins])
  then have init: "gridInv ?m (samplePoints (initialSampler G1 fp g1)) (grid (initialSampler G1 fp g1))"
    by (simp add: initialSampler_def)
  show ?thesis
    by (rule mainLoop_invariant[where I = "gridInv ?m", OF loop init])
       (rule gridInv_step[OF _ m])
qed

lemma getDistance_commute: "getDistance p q = getDistance q p"
  by (simp add: getDistance_def algebra_simps)

text \<open>
  In exact real arithmetic a run that returns keeps any two of its points at least
  the minimum distance apart. The proof rests on \<open>same_cell_close\<close>: two points of one
  cell are closer than \<open>sqrt 2 * cellSize = minDist\<close>. Binary32 rounding does not keep
  that equation, and the property fails for the program (section on the binary32 run).
\<close>

lemma minimum_distance_exact:
  assumes run: "generatePoissonPoints R numPoints g k isCircle minDist = Some (Inr (pts, g'))"
    and ij: "i < length pts" "j < length pts" "i \<noteq> j"
  shows "effectiveMinDist numPoints minDist \<le> getDistance (pts ! i) (pts ! j)"
proof -
  from run obtain s where s: "samplerRun R numPoints g k isCircle minDist = Some (Inr s)"
    and pts: "pts = samplePoints s"
    by (auto simp: generatePoissonPoints_def split: option.splits sum.splits)
  from samplerRun_gridInv[OF s] pts
  have far: "\<And>i j. i < j \<Longrightarrow> j < length pts \<Longrightarrow>
      effectiveMinDist numPoints minDist \<le> getDistance (pts ! i) (pts ! j)"
    by (simp add: gridInv_def)
  show ?thesis
  proof (cases "i < j")
    case True
    with far ij show ?thesis by simp
  next
    case False
    with ij have "j < i" by simp
    from far[OF this ij(1)] show ?thesis by (simp add: getDistance_commute)
  qed
qed

text \<open>
  In exact real arithmetic the accepted points of a run that returns lie in pairwise
  different cells and each is still stored in its cell at the end.
\<close>

lemma one_point_per_cell_exact:
  assumes run: "samplerRun R numPoints g k isCircle minDist = Some (Inr s)"
  shows "distinct (map (\<lambda>p. imageToGrid p (effectiveMinDist numPoints minDist / sqrt 2))
                     (samplePoints s)) \<and>
         (\<forall>p\<in>set (samplePoints s).
            case imageToGrid p (effectiveMinDist numPoints minDist / sqrt 2) of
              (gx, gy) \<Rightarrow> 0 \<le> gx \<and> gx < g_w (grid s) \<and> 0 \<le> gy \<and> gy < g_h (grid s) \<and>
                           g_cells (grid s) ! nat gx ! nat gy = p)"
proof -
  let ?m = "effectiveMinDist numPoints minDist"
  let ?c = "?m / sqrt 2"
  from run have def: "\<not> gridUndefined numPoints minDist" by (rule samplerRun_unfold)
  then have m: "0 < ?m" by (rule effectiveMinDist_pos)
  then have c: "0 < ?c" by simp
  note inv = samplerRun_gridInv[OF run]
  have lt: "imageToGrid (samplePoints s ! i) ?c \<noteq> imageToGrid (samplePoints s ! j) ?c"
    if "i < j" "j < length (samplePoints s)" for i j
  proof
    assume eq: "imageToGrid (samplePoints s ! i) ?c = imageToGrid (samplePoints s ! j) ?c"
    from that inv have nn: "0 \<le> px (samplePoints s ! i)" "0 \<le> py (samplePoints s ! i)"
      "0 \<le> px (samplePoints s ! j)" "0 \<le> py (samplePoints s ! j)"
      by (auto simp: gridInv_def)
    from same_cell_close[OF c nn eq]
    have "getDistance (samplePoints s ! i) (samplePoints s ! j) < ?m" by simp
    moreover from inv that have "?m \<le> getDistance (samplePoints s ! i) (samplePoints s ! j)"
      by (simp add: gridInv_def)
    ultimately show False by simp
  qed
  have "imageToGrid (samplePoints s ! i) ?c \<noteq> imageToGrid (samplePoints s ! j) ?c"
    if "i < length (samplePoints s)" "j < length (samplePoints s)" "i \<noteq> j" for i j
  proof (cases "i < j")
    case True
    from lt[OF True that(2)] show ?thesis .
  next
    case False
    with that have "j < i" by simp
    from lt[OF this that(1)] show ?thesis by (rule not_sym)
  qed
  then have "distinct (map (\<lambda>p. imageToGrid p ?c) (samplePoints s))"
    by (simp add: distinct_conv_nth)
  moreover from inv have "\<forall>p\<in>set (samplePoints s).
            case imageToGrid p ?c of
              (gx, gy) \<Rightarrow> 0 \<le> gx \<and> gx < g_w (grid s) \<and> 0 \<le> gy \<and> gy < g_h (grid s) \<and>
                           g_cells (grid s) ! nat gx ! nat gy = p"
    by (auto simp: gridInv_def)
  ultimately show ?thesis by simp
qed

section \<open>Size and domain of the sample\<close>

lemma candidates_length:
  "candidates R point isCircle minDist cellSize k s = Inr s' \<Longrightarrow>
   length (samplePoints s) \<le> length (samplePoints s') \<and>
   length (samplePoints s') \<le> length (samplePoints s) + k"
proof (induction k arbitrary: s)
  case 0
  then show ?case by simp
next
  case (Suc k)
  then show ?case
    by (fastforce split: prod.splits if_splits sum.splits)
qed

lemma mainLoop_length:
  "mainLoop R numPoints k isCircle minDist cellSize s = Inr s' \<Longrightarrow>
   length (samplePoints s) \<le> length (samplePoints s') \<and>
   length (samplePoints s') \<le> max (length (samplePoints s)) (numPoints - 1 + nat k)"
proof (induction R numPoints k isCircle minDist cellSize s rule: mainLoop.induct)
  case (1 R numPoints k isCircle minDist cellSize s)
  from mainLoop_unfold[OF "1.prems"] show ?case
  proof (elim disjE conjE exE)
    assume "s' = s"
    then show ?thesis by simp
  next
    fix point rest g' s1
    assume go: "processList s \<noteq> []" "length (samplePoints s) < numPoints"
      and pop: "popRandom R (processList s) (gen s) = Inr (point, rest, g')"
      and cand: "candidates R point isCircle minDist cellSize (nat k)
                   (s\<lparr>processList := rest, gen := g'\<rparr>) = Inr s1"
      and rec: "mainLoop R numPoints k isCircle minDist cellSize s1 = Inr s'"
    from candidates_length[OF cand]
    have l1: "length (samplePoints s) \<le> length (samplePoints s1)"
      "length (samplePoints s1) \<le> length (samplePoints s) + nat k" by simp_all
    from "1.IH"[OF conjI[OF go] pop refl refl cand rec]
    have l2: "length (samplePoints s1) \<le> length (samplePoints s')"
      "length (samplePoints s') \<le> max (length (samplePoints s1)) (numPoints - 1 + nat k)"
      by simp_all
    from l1 l2 go(2) show ?thesis by simp
  qed
qed

text \<open>
  C3 (amended). Whenever \<open>generatePoissonPoints\<close> returns, the sequence has at least
  one point and at most \<open>max 1 (numPoints - 1 + newPointsCount)\<close> points (a negative
  \<open>newPointsCount\<close> counting as \<open>0\<close>): the bound \<open>numPoints\<close> is tested only between
  two pops, and each pop can accept up to \<open>newPointsCount\<close> candidates. For
  \<open>numPoints \<le> 1\<close>, \<open>0\<close> included, the sequence is exactly the first point, and the
  generator is returned as the rejection sampling of the first point left it: the body
  of the active-list loop is never entered.
\<close>

theorem count_bound:
  assumes run: "generatePoissonPoints R numPoints g k isCircle minDist = Some (Inr (pts, g'))"
  shows "1 \<le> length pts \<and>
         length pts \<le> max 1 (numPoints - 1 + nat k) \<and>
         (numPoints \<le> 1 \<longrightarrow> (\<exists>firstPoint. firstPointLoop R isCircle g = Some (firstPoint, g') \<and>
                                          pts = [firstPoint]))"
proof -
  from run obtain s where s: "samplerRun R numPoints g k isCircle minDist = Some (Inr s)"
    and pts: "pts = samplePoints s" and g': "g' = gen s"
    by (auto simp: generatePoissonPoints_def split: option.splits sum.splits)
  from s obtain fp g1 G1 where fp: "firstPointLoop R isCircle g = Some (fp, g1)"
    and loop: "mainLoop R numPoints k isCircle (effectiveMinDist numPoints minDist)
        (effectiveMinDist numPoints minDist / sqrt 2) (initialSampler G1 fp g1) = Inr s"
    by (rule samplerRun_unfold)
  from mainLoop_length[OF loop] pts
  have "1 \<le> length pts" "length pts \<le> max 1 (numPoints - 1 + nat k)"
    by (simp_all add: initialSampler_def)
  moreover have "\<exists>firstPoint. firstPointLoop R isCircle g = Some (firstPoint, g') \<and> pts = [firstPoint]"
    if "numPoints \<le> 1"
  proof -
    from loop have "s = initialSampler G1 fp g1"
      unfolding mainLoop_skip[OF that] by simp
    with fp pts g' show ?thesis by (simp add: initialSampler_def)
  qed
  ultimately show ?thesis by simp
qed

theorem count_bound_witness:
  "generatePoissonPoints (countingPRNG exampleDraws) 2 0 2 False (1/2) =
     Some (Inr ([mkPoint (1/2) (1/2), mkPoint 1 (1/2), mkPoint 0 (1/2)], 7)) \<and>
   1 \<le> length [mkPoint (1/2) (1/2), mkPoint 1 (1/2), mkPoint 0 (1/2)] \<and>
   length [mkPoint (1/2) (1/2), mkPoint 1 (1/2), mkPoint 0 (1/2)] \<le> max 1 (2 - 1 + nat 2) \<and>
   generatePoissonPoints (countingPRNG exampleDraws) 0 0 2 False (1/2) =
     Some (Inr ([mkPoint (1/2) (1/2)], 2)) \<and>
   firstPointLoop (countingPRNG exampleDraws) False 0 = Some (mkPoint (1/2) (1/2), 2)"
  using count_bound[OF example_three_points] count_bound[OF example_zero_requested] example_three_points example_zero_requested
  by simp

text \<open>
  The claim as stated fails: for \<open>numPoints = 0\<close> (and \<open>minDist = 1/2\<close>) the result is
  one point, not the empty sequence; and for \<open>numPoints = 2\<close>, \<open>newPointsCount = 2\<close>
  the result has three points.
\<close>

theorem count_bound_counterexample:
  "generatePoissonPoints (countingPRNG exampleDraws) 0 0 2 False (1/2) =
     Some (Inr ([mkPoint (1/2) (1/2)], 2)) \<and>
   \<not> length [mkPoint (1/2) (1/2)] \<le> (0::nat) \<and>
   generatePoissonPoints (countingPRNG exampleDraws) 2 0 2 False (1/2) =
     Some (Inr ([mkPoint (1/2) (1/2), mkPoint 1 (1/2), mkPoint 0 (1/2)], 7)) \<and>
   \<not> length [mkPoint (1/2) (1/2), mkPoint 1 (1/2), mkPoint 0 (1/2)] \<le> (2::nat)"
  using example_zero_requested example_three_points by simp

lemma samples_canFit:
  assumes run: "generatePoissonPoints R numPoints g k isCircle minDist = Some (Inr (pts, g'))"
    and p: "p \<in> set pts"
  shows "canFit isCircle p"
proof -
  from run obtain s where s: "samplerRun R numPoints g k isCircle minDist = Some (Inr s)"
    and pts: "pts = samplePoints s"
    by (auto simp: generatePoissonPoints_def split: option.splits sum.splits)
  from s obtain fp g1 G1 where fp: "firstPointLoop R isCircle g = Some (fp, g1)"
    and loop: "mainLoop R numPoints k isCircle (effectiveMinDist numPoints minDist)
        (effectiveMinDist numPoints minDist / sqrt 2) (initialSampler G1 fp g1) = Inr s"
    by (rule samplerRun_unfold)
  let ?I = "\<lambda>(pts :: Point list) (G :: Grid). \<forall>p\<in>set pts. canFit isCircle p"
  from firstPointLoop_fst[OF fp]
  have init: "?I (samplePoints (initialSampler G1 fp g1)) (grid (initialSampler G1 fp g1))"
    by (simp add: initialSampler_def)
  have "?I (samplePoints s) (grid s)"
    by (rule mainLoop_invariant[where I = ?I, OF loop init]) simp
  with p pts show ?thesis by simp
qed

text \<open>
  C6. Every point of a returned sequence satisfies the shape predicate of the run:
  \<open>isInCircle\<close> when \<open>isCircle\<close> is true, \<open>isInRectangle\<close> otherwise.
\<close>

theorem domain_containment:
  assumes run: "generatePoissonPoints R numPoints g k isCircle minDist = Some (Inr (pts, g'))"
    and p: "p \<in> set pts"
  shows "if isCircle then isInCircle p else isInRectangle p"
  using samples_canFit[OF run p] by (simp add: canFit_def)

theorem domain_containment_witness:
  "generatePoissonPoints (countingPRNG exampleDraws) 2 0 2 False (1/2) =
     Some (Inr ([mkPoint (1/2) (1/2), mkPoint 1 (1/2), mkPoint 0 (1/2)], 7)) \<and>
   isInRectangle (mkPoint 1 (1/2)) \<and>
   generatePoissonPoints (countingPRNG (\<lambda>n. 1 / 2)) (Suc 0) 0 70 True (- 1) =
     Some (Inr ([mkPoint (1 / 2) (1 / 2)], 2)) \<and>
   isInCircle (mkPoint (1/2) (1/2))"
  using domain_containment[OF example_three_points, of "mkPoint 1 (1/2)"]
    domain_containment[OF generatePoissonPoints_one[of 0 70], of "mkPoint (1/2) (1/2)"]
    example_three_points generatePoissonPoints_one[of 0 70]
  by (simp add: numeral_2_eq_2)

section \<open>Bounds of the grids\<close>

text \<open>
  C4. The point \<open>(1, 1/2)\<close> satisfies \<open>isInRectangle\<close>. In the binning pass of
  \<open>GenerateMap\<close>, on a map of 5 by 5 cells, its cell is \<open>(5, 2)\<close> and
  \<open>grid.at(5)\<close> throws: the placement is not dropped. In the sampler, with cells of
  size \<open>1/4\<close>, its cell is \<open>(4, 2)\<close> in a grid of 4 by 4 cells, and \<open>Grid::insert\<close>
  writes \<open>grid_[4][2]\<close> without any check: a run of \<open>generatePoissonPoints\<close> on the
  square reaches that write.
\<close>

theorem boundary_point_out_of_range:
  "isInRectangle (mkPoint 1 (1/2)) \<and>
   binPoints exampleEnv (newMapGenerator 1 1 0 0) [mkPoint 1 (1/2)] = Inl OutOfRangeException \<and>
   insert_grid boundaryGrid (mkPoint 1 (1/2)) = Inl IndexOutOfBounds \<and>
   generatePoissonPoints (countingPRNG boundaryDraws) 2 0 1 False (sqrt 2 / 4) =
     Some (Inl IndexOutOfBounds)"
proof -
  have "isInRectangle (mkPoint 1 (1/2))" by (simp add: isInRectangle_def mkPoint_def)
  moreover have "generatePoissonPoints (countingPRNG boundaryDraws) 2 0 1 False (sqrt 2 / 4) =
     Some (Inl IndexOutOfBounds)"
    by (simp only: generatePoissonPoints_def boundary_samplerRun option.case sum.case)
  ultimately show ?thesis using boundary_binPoints boundary_insert_right by simp
qed

section \<open>Cluster members\<close>

lemma member_within:
  assumes c: "isInCircle p" and r: "0 \<le> radius"
  shows "distance (obj_pos origin) (memberPos origin radius p) \<le> radius / 2"
proof -
  let ?dx = "px p - 1/2" and ?dy = "py p - 1/2"
  from c have in_disk: "?dx * ?dx + ?dy * ?dy \<le> 1/4"
    by (simp add: isInCircle_def Let_def)
  have "distance (obj_pos origin) (memberPos origin radius p) =
        sqrt ((radius * radius) * (?dx * ?dx + ?dy * ?dy))"
    unfolding distance_def memberPos_def
    by (rule arg_cong[where f = sqrt]) (simp add: algebra_simps)
  also have "\<dots> \<le> sqrt ((radius * radius) * (1/4))"
    by (rule real_sqrt_le_mono) (rule mult_left_mono[OF in_disk], simp)
  also have "\<dots> = radius / 2"
    using r by (intro real_sqrt_unique) (simp_all add: power2_eq_square)
  finally show ?thesis .
qed

lemma clusterKind_radius:
  assumes "clusterKind E M = (isBarnCluster, radius, rs)" and "0 \<le> m_cellSize M"
  shows "0 \<le> radius"
  using assms
  by (auto simp: clusterKind_def Let_def split: prod.splits if_splits)

lemma pushBack_appends:
  assumes "pushBack G a b point = Inr G'" and "Q point"
  shows "list_all2 (list_all2 (\<lambda>c c'. \<exists>ys. c' = c @ ys \<and> list_all Q ys)) G G'"
proof -
  from assms have ab: "0 \<le> a" "nat a < length G" "0 \<le> b" "nat b < length (G ! nat a)"
    and G': "G' = G[nat a := (G ! nat a)[nat b := G ! nat a ! nat b @ [point]]]"
    by (auto simp: pushBack_def split: if_splits)
  have same: "\<exists>ys. c = c @ ys \<and> list_all Q ys" for c :: "Object list"
    by (rule exI[of _ "[]"]) simp
  have new: "\<exists>ys. c @ [point] = c @ ys \<and> list_all Q ys" for c
    by (rule exI[of _ "[point]"]) (simp add: assms(2))
  have row: "list_all2 (\<lambda>c c'. \<exists>ys. c' = c @ ys \<and> list_all Q ys) (G ! nat a)
               ((G ! nat a)[nat b := G ! nat a ! nat b @ [point]])"
    using ab same new by (auto simp: list_all2_conv_all_nth nth_list_update)
  have "list_all2 (\<lambda>c c'. \<exists>ys. c' = c @ ys \<and> list_all Q ys) r r" for r
    using same by (simp add: list_all2_conv_all_nth)
  with row ab show ?thesis
    unfolding G' by (auto simp: list_all2_conv_all_nth nth_list_update)
qed

lemma appends_refl:
  "list_all2 (list_all2 (\<lambda>c c'. \<exists>ys. c' = c @ ys \<and> list_all Q ys)) (G :: Object list list list) G"
proof -
  have "\<exists>ys. c = c @ ys \<and> list_all Q ys" for c :: "Object list"
    by (rule exI[of _ "[]"]) simp
  then show ?thesis by (simp add: list_all2_conv_all_nth)
qed

lemma appends_trans:
  assumes "list_all2 (list_all2 (\<lambda>c c'. \<exists>ys. c' = c @ ys \<and> list_all Q ys)) (G :: Object list list list) G'"
    and "list_all2 (list_all2 (\<lambda>c c'. \<exists>ys. c' = c @ ys \<and> list_all Q ys)) G' G''"
  shows "list_all2 (list_all2 (\<lambda>c c'. \<exists>ys. c' = c @ ys \<and> list_all Q ys)) G G''"
proof -
  have cell: "\<exists>ys. c'' = c @ ys \<and> list_all Q ys"
    if "\<exists>ys. c' = c @ ys \<and> list_all Q ys" "\<exists>ys. c'' = c' @ ys \<and> list_all Q ys"
    for c c' c'' :: "Object list"
  proof -
    from that obtain ys zs where "c' = c @ ys" "list_all Q ys" "c'' = c' @ zs" "list_all Q zs"
      by blast
    then have "c'' = c @ (ys @ zs) \<and> list_all Q (ys @ zs)" by simp
    then show ?thesis by blast
  qed
  show ?thesis
    by (rule list_all2_trans[OF _ assms]) (rule list_all2_trans, rule cell)
qed

lemma placeMember_appends:
  assumes "placeMember E isBarn origin radius M p = Inr M'"
    and "\<And>o'. obj_pos o' = memberPos origin radius p \<Longrightarrow> Q o'"
  shows "list_all2 (list_all2 (\<lambda>c c'. \<exists>ys. c' = c @ ys \<and> list_all Q ys)) (m_grid M) (m_grid M')"
  using assms(1)
  by (auto simp: placeMember_def Let_def appends_refl split: if_splits prod.splits sum.splits
           intro!: pushBack_appends assms(2))

lemma placeMembers_appends:
  assumes "placeMembers E isBarn origin radius M ps = Inr M'"
    and "\<And>p o'. p \<in> set ps \<Longrightarrow> obj_pos o' = memberPos origin radius p \<Longrightarrow> Q o'"
  shows "list_all2 (list_all2 (\<lambda>c c'. \<exists>ys. c' = c @ ys \<and> list_all Q ys)) (m_grid M) (m_grid M')"
  using assms
proof (induction ps arbitrary: M)
  case Nil
  then show ?case by (simp add: appends_refl)
next
  case (Cons p ps)
  from Cons.prems(1) obtain M1 where one: "placeMember E isBarn origin radius M p = Inr M1"
    and rest: "placeMembers E isBarn origin radius M1 ps = Inr M'"
    by (auto split: sum.splits)
  have "list_all2 (list_all2 (\<lambda>c c'. \<exists>ys. c' = c @ ys \<and> list_all Q ys)) (m_grid M) (m_grid M1)"
    by (rule placeMember_appends[OF one]) (rule Cons.prems(2), simp_all)
  moreover have "list_all2 (list_all2 (\<lambda>c c'. \<exists>ys. c' = c @ ys \<and> list_all Q ys)) (m_grid M1) (m_grid M')"
    by (rule Cons.IH[OF rest]) (rule Cons.prems(2), simp_all)
  ultimately show ?case by (rule appends_trans)
qed

text \<open>
  The members that \<open>GenerateCluster\<close> stores: every cell keeps its content and gains
  only placements within \<open>radius / 2\<close> of the origin.
\<close>

lemma GenerateCluster_members_near:
  assumes run: "GenerateCluster E M origin = Some (Inr M')"
    and kind: "clusterKind E M = (isBarnCluster, radius, rs2)"
    and cell: "0 \<le> m_cellSize M"
  shows "list_all2 (list_all2 (\<lambda>c c'. \<exists>ys. c' = c @ ys \<and>
            list_all (\<lambda>o'. distance (obj_pos origin) (obj_pos o') \<le> radius / 2) ys))
           (m_grid M) (m_grid M')"
proof -
  from run kind obtain n rs3 Points g' where
    sample: "generatePoissonPoints (prng E) n (m_PRNG M) 70 True (- 1) = Some (Inr (Points, g'))"
    and place: "placeMembers E isBarnCluster origin radius (M\<lparr>m_PRNG := g', m_rand := rs3\<rparr>) Points = Inr M'"
    by (auto simp: GenerateCluster_def split: prod.splits sum.splits option.splits)
  have r: "0 \<le> radius" using clusterKind_radius[OF kind cell] .
  have "list_all2 (list_all2 (\<lambda>c c'. \<exists>ys. c' = c @ ys \<and>
            list_all (\<lambda>o'. distance (obj_pos origin) (obj_pos o') \<le> radius / 2) ys))
           (m_grid (M\<lparr>m_PRNG := g', m_rand := rs3\<rparr>)) (m_grid M')"
  proof (rule placeMembers_appends[OF place])
    fix p o'
    assume "p \<in> set Points" and pos: "obj_pos o' = memberPos origin radius p"
    from samples_canFit[OF sample this(1)] have "isInCircle p" by (simp add: canFit_def)
    from member_within[OF this r] pos
    show "distance (obj_pos origin) (obj_pos o') \<le> radius / 2" by simp
  qed
  then show ?thesis by simp
qed

text \<open>
  C8. In \<open>GenerateCluster\<close>, with \<open>radius\<close> the clearing radius and \<open>Points\<close> the local
  sample (drawn in the unit disk), the position computed for every sample point \<open>p\<close>,
  \<open>origin.pos + (p.x * radius, p.y * radius) - radius / 2\<close>, is at distance at most
  \<open>radius / 2\<close>, hence at most \<open>radius\<close>, from the origin's position; this is before the
  test that drops the points outside the map. Float arithmetic is read as exact real
  arithmetic; the cell size of the map is not negative (the constructor sets it to 20).
\<close>

theorem cluster_containment:
  assumes kind: "clusterKind E M = (isBarnCluster, radius, rs2)"
    and cell: "0 \<le> m_cellSize M"
    and sample: "generatePoissonPoints (prng E) n (m_PRNG M) 70 True (- 1) = Some (Inr (Points, g'))"
    and p: "p \<in> set Points"
  shows "distance (obj_pos origin) (memberPos origin radius p) \<le> radius / 2 \<and>
         radius / 2 \<le> radius"
proof -
  from samples_canFit[OF sample p] have "isInCircle p" by (simp add: canFit_def)
  moreover from clusterKind_radius[OF kind cell] have "0 \<le> radius" .
  ultimately show ?thesis using member_within by simp
qed

theorem cluster_containment_witness:
  "clusterKind exampleEnv exampleMap = (True, 20, 1) \<and>
   0 \<le> m_cellSize exampleMap \<and>
   generatePoissonPoints (prng exampleEnv) (Suc 0) (m_PRNG exampleMap) 70 True (- 1) =
     Some (Inr ([mkPoint (1 / 2) (1 / 2)], 2)) \<and>
   distance (obj_pos exampleOrigin) (memberPos exampleOrigin 20 (mkPoint (1 / 2) (1 / 2))) \<le> 20 / 2"
proof -
  have k: "clusterKind exampleEnv exampleMap = (True, 20, 1)"
    by (simp add: clusterKind_def exampleEnv_def exampleMap_def newMapGenerator_def)
  have c: "0 \<le> m_cellSize exampleMap"
    by (simp add: exampleMap_def newMapGenerator_def)
  have g: "generatePoissonPoints (prng exampleEnv) (Suc 0) (m_PRNG exampleMap) 70 True (- 1) =
      Some (Inr ([mkPoint (1 / 2) (1 / 2)], 2))"
    by (simp add: exampleEnv_def exampleMap_def newMapGenerator_def generatePoissonPoints_one)
  from cluster_containment[OF k c g, of "mkPoint (1 / 2) (1 / 2)" exampleOrigin] k c g
  show ?thesis by simp
qed

section \<open>Rounding to binary32\<close>

lemma rne_eqI: "\<bar>x - real_of_int n\<bar> < 1 / 2 \<Longrightarrow> rne x = n"
proof -
  assume a: "\<bar>x - real_of_int n\<bar> < 1 / 2"
  show ?thesis
  proof (cases "real_of_int n \<le> x")
    case True
    with a have "\<lfloor>x\<rfloor> = n" by (intro floor_unique) linarith+
    with a True show ?thesis by (simp add: rne_def Let_def)
  next
    case False
    with a have f: "\<lfloor>x\<rfloor> = n - 1" by (intro floor_unique) (simp, linarith)+
    with a False have "1 / 2 < x - real_of_int \<lfloor>x\<rfloor>" by simp
    with f show ?thesis by (simp add: rne_def Let_def)
  qed
qed

lemma two_powr_diff: "2 powr (real_of_int i - real k) = 2 powr real_of_int i / 2 ^ k"
  by (simp add: powr_diff powr_realpow)

lemma fl32_eqI:
  assumes lo: "2 ^ 23 \<le> \<bar>x\<bar> * 2 ^ k" and hi: "\<bar>x\<bar> * 2 ^ k < 2 ^ 24" and k: "k \<le> 149"
    and r: "\<bar>x * 2 ^ k - real_of_int n\<bar> < 1 / 2"
  shows "fl32 x = real_of_int n / 2 ^ k"
proof -
  from lo have x0: "x \<noteq> 0" by auto
  then have ax: "0 < \<bar>x\<bar>" by simp
  have p23: "2 powr real_of_int (23 - int k) = 2 ^ 23 / 2 ^ k"
    using two_powr_diff[of 23 k] by simp
  have p24: "2 powr real_of_int (23 - int k + 1) = 2 ^ 24 / 2 ^ k"
    using two_powr_diff[of 24 k] by simp
  have p0: "2 powr real_of_int (23 - int k - 23) = 1 / 2 ^ k"
    using two_powr_diff[of 0 k] by simp
  have e: "\<lfloor>log 2 \<bar>x\<bar>\<rfloor> = 23 - int k"
  proof -
    have "2 powr real_of_int (23 - int k) \<le> \<bar>x\<bar> \<and> \<bar>x\<bar> < 2 powr real_of_int (23 - int k + 1)"
      unfolding p23 p24 using lo hi by (simp add: field_simps)
    then show ?thesis
      using floor_log_eq_powr_iff[of "\<bar>x\<bar>" 2 "23 - int k"] ax by simp
  qed
  have m: "max (23 - int k) (- 126) = 23 - int k" using k by simp
  have "fl32 x = real_of_int (rne (x / (1 / 2 ^ k))) * (1 / 2 ^ k)"
    unfolding fl32_def e Let_def m p0 using x0 by simp
  also have "x / (1 / 2 ^ k) = x * 2 ^ k" by simp
  also have "rne (x * 2 ^ k) = n" using r by (rule rne_eqI)
  finally show ?thesis by simp
qed

lemma fl32_betweenI:
  assumes b: "lo < x \<and> x < hi" and s: "0 < lo \<or> hi < 0"
    and e1: "2 ^ 23 \<le> min \<bar>lo\<bar> \<bar>hi\<bar> * 2 ^ k" and e2: "max \<bar>lo\<bar> \<bar>hi\<bar> * 2 ^ k \<le> 2 ^ 24"
    and k: "k \<le> 149"
    and n1: "real_of_int n - 1 / 2 \<le> lo * 2 ^ k" and n2: "hi * 2 ^ k \<le> real_of_int n + 1 / 2"
  shows "fl32 x = real_of_int n / 2 ^ k"
proof (rule fl32_eqI[OF _ _ k])
  have p: "(0::real) < 2 ^ k" by simp
  from b s have ax: "min \<bar>lo\<bar> \<bar>hi\<bar> \<le> \<bar>x\<bar>" "\<bar>x\<bar> < max \<bar>lo\<bar> \<bar>hi\<bar>" by auto
  have "min \<bar>lo\<bar> \<bar>hi\<bar> * 2 ^ k \<le> \<bar>x\<bar> * 2 ^ k"
    using ax(1) by (rule mult_right_mono) simp
  with e1 show "2 ^ 23 \<le> \<bar>x\<bar> * 2 ^ k" by linarith
  have "\<bar>x\<bar> * 2 ^ k < max \<bar>lo\<bar> \<bar>hi\<bar> * 2 ^ k"
    using ax(2) p by (rule mult_strict_right_mono)
  with e2 show "\<bar>x\<bar> * 2 ^ k < 2 ^ 24" by linarith
  from b have "lo * 2 ^ k < x * 2 ^ k" "x * 2 ^ k < hi * 2 ^ k" by simp_all
  with n1 n2 show "\<bar>x * 2 ^ k - real_of_int n\<bar> < 1 / 2" by linarith
qed

lemma sqrt_between:
  assumes "0 \<le> lo" "lo * lo < q" "q < hi * hi" "0 \<le> hi"
  shows "lo < sqrt q \<and> sqrt q < hi"
proof -
  have "sqrt (lo * lo) < sqrt q" using assms(2) by (rule real_sqrt_less_mono)
  moreover have "sqrt q < sqrt (hi * hi)" using assms(3) by (rule real_sqrt_less_mono)
  ultimately show ?thesis using assms(1,4) by simp
qed

lemma Maclaurin_cos_bound: "\<bar>cos x - (\<Sum>m<n. cos_coeff m * x ^ m)\<bar> \<le> inverse (fact n) * \<bar>x\<bar> ^ n"
proof -
  from Maclaurin_cos_expansion[of x n] obtain t where
    "cos x = (\<Sum>m<n. cos_coeff m * x ^ m) + (cos (t + 1/2 * real n * pi) / fact n) * x ^ n"
    by blast
  then have "\<bar>cos x - (\<Sum>m<n. cos_coeff m * x ^ m)\<bar> = \<bar>cos (t + 1/2 * real n * pi)\<bar> / fact n * \<bar>x\<bar> ^ n"
    by (simp add: abs_mult power_abs)
  also have "\<dots> \<le> 1 / fact n * \<bar>x\<bar> ^ n"
    by (intro mult_right_mono divide_right_mono) simp_all
  finally show ?thesis by (simp add: field_simps)
qed

lemma sum_lessThan_numeral: "(\<Sum>m<numeral k. f m) = (\<Sum>m<pred_numeral k. f m) + f (pred_numeral k :: nat)"
  by (simp add: numeral_eq_Suc)

lemma enclose:
  fixes v :: real
  assumes "\<bar>v - S\<bar> \<le> E" and "lo + E < S" and "S + E < hi"
  shows "lo < v \<and> v < hi"
  using assms by linarith

text \<open>
  The roundings of the run, one lemma for each operation: the argument is the exact
  value of the operation, the result its binary32 rounding.
\<close>

lemma fl32_step1: "fl32 (sqrt 2) = 11863283 / 8388608"
proof -
  have "fl32 (sqrt 2) = real_of_int (11863283) / 2 ^ 23"
    by (rule fl32_betweenI[OF sqrt_between[where lo = "(11863283 - 1/2) / 2 ^ 23" and hi = "(11863283 + 1/2) / 2 ^ 23"]])
       simp_all
  then show ?thesis by simp
qed

lemma fl32_step2: "fl32 (902776 / 11863283) = 10213745 / 134217728"
proof -
  have "fl32 (902776 / 11863283) = real_of_int (10213745) / 2 ^ 27"
    by (rule fl32_eqI) simp_all
  then show ?thesis by simp
qed

lemma fl32_step3: "fl32 (134217728 / 10213745) = 13779225 / 1048576"
proof -
  have "fl32 (134217728 / 10213745) = real_of_int (13779225) / 2 ^ 20"
    by (rule fl32_eqI) simp_all
  then show ?thesis by simp
qed

lemma fl32_step4: "fl32 (3141592653589 / 1000000000000) = 13176795 / 4194304"
proof -
  have "fl32 (3141592653589 / 1000000000000) = real_of_int (13176795) / 2 ^ 22"
    by (rule fl32_eqI) simp_all
  then show ?thesis by simp
qed

lemma fl32_step5: "fl32 (122564936 / 10213745) = 12"
proof -
  have "fl32 (122564936 / 10213745) = real_of_int (12582912) / 2 ^ 20"
    by (rule fl32_eqI) simp_all
  then show ?thesis by simp
qed

lemma fl32_step6: "fl32 (1) = 1"
proof -
  have "fl32 (1) = real_of_int (8388608) / 2 ^ 23"
    by (rule fl32_eqI) simp_all
  then show ?thesis by simp
qed

lemma fl32_step7: "fl32 (112847 / 1048576) = 112847 / 1048576"
proof -
  have "fl32 (112847 / 1048576) = real_of_int (14444416) / 2 ^ 27"
    by (rule fl32_eqI) simp_all
  then show ?thesis by simp
qed

lemma fl32_step8: "fl32 (13176795 / 2097152) = 13176795 / 2097152"
proof -
  have "fl32 (13176795 / 2097152) = real_of_int (13176795) / 2 ^ 21"
    by (rule fl32_eqI) simp_all
  then show ?thesis by simp
qed

lemma fl32_step9: "fl32 (13176795 / 16777216) = 13176795 / 16777216"
proof -
  have "fl32 (13176795 / 16777216) = real_of_int (13176795) / 2 ^ 24"
    by (rule fl32_eqI) simp_all
  then show ?thesis by simp
qed

lemma fl32_step10_between:
  "(11863283 - 1/2) / 2 ^ 24 < (cos (13176795 / 16777216) :: real) \<and> (cos (13176795 / 16777216) :: real) < (11863283 + 1/2) / 2 ^ 24"
  by (rule enclose[OF Maclaurin_cos_bound[of _ 12]])
     (simp_all add: sum_lessThan_numeral cos_coeff_def fact_numeral power_divide)

lemma fl32_step10: "fl32 (cos (13176795 / 16777216)) = 11863283 / 16777216"
proof -
  have "fl32 (cos (13176795 / 16777216)) = real_of_int (11863283) / 2 ^ 24"
    by (rule fl32_betweenI[OF fl32_step10_between]) simp_all
  then show ?thesis by simp
qed

lemma fl32_step11: "fl32 (1338735896701 / 17592186044416) = 638359 / 8388608"
proof -
  have "fl32 (1338735896701 / 17592186044416) = real_of_int (10213744) / 2 ^ 27"
    by (rule fl32_eqI) simp_all
  then show ?thesis by simp
qed

lemma fl32_step12: "fl32 (16597335 / 16777216) = 16597335 / 16777216"
proof -
  have "fl32 (16597335 / 16777216) = real_of_int (16597335) / 2 ^ 24"
    by (rule fl32_eqI) simp_all
  then show ?thesis by simp
qed

lemma fl32_step13_between:
  "(11863283 - 1/2) / 2 ^ 24 < (sin (13176795 / 16777216) :: real) \<and> (sin (13176795 / 16777216) :: real) < (11863283 + 1/2) / 2 ^ 24"
  by (rule enclose[OF Maclaurin_sin_bound[of _ 12]])
     (simp_all add: sum_lessThan_numeral sin_coeff_def fact_numeral power_divide)

lemma fl32_step13: "fl32 (sin (13176795 / 16777216)) = 11863283 / 16777216"
proof -
  have "fl32 (sin (13176795 / 16777216)) = real_of_int (11863283) / 2 ^ 24"
    by (rule fl32_betweenI[OF fl32_step13_between]) simp_all
  then show ?thesis by simp
qed

lemma fl32_step14: "fl32 (26555736 / 2042749) = 13631487 / 1048576"
proof -
  have "fl32 (26555736 / 2042749) = real_of_int (13631487) / 2 ^ 20"
    by (rule fl32_eqI) simp_all
  then show ?thesis by simp
qed

lemma fl32_step15: "fl32 (- (638359 / 8388608)) = - (638359 / 8388608)"
proof -
  have "fl32 (- (638359 / 8388608)) = real_of_int (-10213744) / 2 ^ 27"
    by (rule fl32_eqI) simp_all
  then show ?thesis by simp
qed

lemma fl32_step16: "fl32 (407502212881 / 70368744177664) = 12435981 / 2147483648"
proof -
  have "fl32 (407502212881 / 70368744177664) = real_of_int (12435981) / 2 ^ 31"
    by (rule fl32_eqI) simp_all
  then show ?thesis by simp
qed

lemma fl32_step17: "fl32 (12435981 / 1073741824) = 12435981 / 1073741824"
proof -
  have "fl32 (12435981 / 1073741824) = real_of_int (12435981) / 2 ^ 30"
    by (rule fl32_eqI) simp_all
  then show ?thesis by simp
qed

lemma fl32_step18: "fl32 (sqrt (12435981 / 1073741824)) = 112847 / 1048576"
proof -
  have "fl32 (sqrt (12435981 / 1073741824)) = real_of_int (14444416) / 2 ^ 27"
    by (rule fl32_betweenI[OF sqrt_between[where lo = "(14444416 - 1/2) / 2 ^ 27" and hi = "(14444416 + 1/2) / 2 ^ 27"]])
       simp_all
  then show ?thesis by simp
qed

lemma fl32_step19: "fl32 (3 / 2) = 3 / 2"
proof -
  have "fl32 (3 / 2) = real_of_int (12582912) / 2 ^ 23"
    by (rule fl32_eqI) simp_all
  then show ?thesis by simp
qed

lemma fl32_step20: "fl32 (338541 / 2097152) = 338541 / 2097152"
proof -
  have "fl32 (338541 / 2097152) = real_of_int (10833312) / 2 ^ 26"
    by (rule fl32_eqI) simp_all
  then show ?thesis by simp
qed

lemma fl32_step21: "fl32 (65883975 / 16777216) = 8235497 / 2097152"
proof -
  have "fl32 (65883975 / 16777216) = real_of_int (16470994) / 2 ^ 22"
    by (rule fl32_eqI) simp_all
  then show ?thesis by simp
qed

lemma fl32_step22_between:
  "(- 11863281 - 1/2) / 2 ^ 24 < (cos (8235497 / 2097152) :: real) \<and> (cos (8235497 / 2097152) :: real) < (- 11863281 + 1/2) / 2 ^ 24"
  by (rule enclose[OF Maclaurin_cos_bound[of _ 24]])
     (simp_all add: sum_lessThan_numeral cos_coeff_def fact_numeral power_divide)

lemma fl32_step22: "fl32 (cos (8235497 / 2097152)) = - (11863281 / 16777216)"
proof -
  have "fl32 (cos (8235497 / 2097152)) = real_of_int (-11863281) / 2 ^ 24"
    by (rule fl32_betweenI[OF fl32_step22_between]) simp_all
  then show ?thesis by simp
qed

lemma fl32_step23: "fl32 (- (4016207013021 / 35184372088832)) = - (7660307 / 67108864)"
proof -
  have "fl32 (- (4016207013021 / 35184372088832)) = real_of_int (-15320614) / 2 ^ 27"
    by (rule fl32_eqI) simp_all
  then show ?thesis by simp
qed

lemma fl32_step24: "fl32 (58729033 / 67108864) = 7341129 / 8388608"
proof -
  have "fl32 (58729033 / 67108864) = real_of_int (14682258) / 2 ^ 24"
    by (rule fl32_eqI) simp_all
  then show ?thesis by simp
qed

lemma fl32_step25_between:
  "(- 11863285 - 1/2) / 2 ^ 24 < (sin (8235497 / 2097152) :: real) \<and> (sin (8235497 / 2097152) :: real) < (- 11863285 + 1/2) / 2 ^ 24"
  by (rule enclose[OF Maclaurin_sin_bound[of _ 24]])
     (simp_all add: sum_lessThan_numeral sin_coeff_def fact_numeral power_divide)

lemma fl32_step25: "fl32 (sin (8235497 / 2097152)) = - (11863285 / 16777216)"
proof -
  have "fl32 (sin (8235497 / 2097152)) = real_of_int (-11863285) / 2 ^ 24"
    by (rule fl32_betweenI[OF fl32_step25_between]) simp_all
  then show ?thesis by simp
qed

lemma fl32_step26: "fl32 (- (4016208367185 / 35184372088832)) = - (15320619 / 134217728)"
proof -
  have "fl32 (- (4016208367185 / 35184372088832)) = real_of_int (-15320619) / 2 ^ 27"
    by (rule fl32_eqI) simp_all
  then show ?thesis by simp
qed

lemma fl32_step27: "fl32 (117458061 / 134217728) = 7341129 / 8388608"
proof -
  have "fl32 (117458061 / 134217728) = real_of_int (14682258) / 2 ^ 24"
    by (rule fl32_eqI) simp_all
  then show ?thesis by simp
qed

lemma fl32_step28: "fl32 (117458064 / 10213745) = 23 / 2"
proof -
  have "fl32 (117458064 / 10213745) = real_of_int (12058624) / 2 ^ 20"
    by (rule fl32_eqI) simp_all
  then show ?thesis by simp
qed

lemma fl32_step29: "fl32 (1915077 / 16777216) = 1915077 / 16777216"
proof -
  have "fl32 (1915077 / 16777216) = real_of_int (15320616) / 2 ^ 27"
    by (rule fl32_eqI) simp_all
  then show ?thesis by simp
qed

lemma fl32_step30: "fl32 (3667519915929 / 281474976710656) = 6995239 / 536870912"
proof -
  have "fl32 (3667519915929 / 281474976710656) = real_of_int (13990478) / 2 ^ 30"
    by (rule fl32_eqI) simp_all
  then show ?thesis by simp
qed

lemma fl32_step31: "fl32 (6995239 / 268435456) = 6995239 / 268435456"
proof -
  have "fl32 (6995239 / 268435456) = real_of_int (13990478) / 2 ^ 29"
    by (rule fl32_eqI) simp_all
  then show ?thesis by simp
qed

lemma fl32_step32: "fl32 (sqrt (6995239 / 268435456)) = 10833311 / 67108864"
proof -
  have "fl32 (sqrt (6995239 / 268435456)) = real_of_int (10833311) / 2 ^ 26"
    by (rule fl32_betweenI[OF sqrt_between[where lo = "(10833311 - 1/2) / 2 ^ 26" and hi = "(10833311 + 1/2) / 2 ^ 26"]])
       simp_all
  then show ?thesis by simp
qed

lemma fl32_step33: "fl32 (638359 / 16777216) = 638359 / 16777216"
proof -
  have "fl32 (638359 / 16777216) = real_of_int (10213744) / 2 ^ 28"
    by (rule fl32_eqI) simp_all
  then show ?thesis by simp
qed

lemma fl32_step34: "fl32 (407502212881 / 281474976710656) = 12435981 / 8589934592"
proof -
  have "fl32 (407502212881 / 281474976710656) = real_of_int (12435981) / 2 ^ 33"
    by (rule fl32_eqI) simp_all
  then show ?thesis by simp
qed

lemma fl32_step35: "fl32 (12435981 / 4294967296) = 12435981 / 4294967296"
proof -
  have "fl32 (12435981 / 4294967296) = real_of_int (12435981) / 2 ^ 32"
    by (rule fl32_eqI) simp_all
  then show ?thesis by simp
qed

lemma fl32_step36: "fl32 (sqrt (12435981 / 4294967296)) = 112847 / 2097152"
proof -
  have "fl32 (sqrt (12435981 / 4294967296)) = real_of_int (14444416) / 2 ^ 28"
    by (rule fl32_betweenI[OF sqrt_between[where lo = "(14444416 - 1/2) / 2 ^ 28" and hi = "(14444416 + 1/2) / 2 ^ 28"]])
       simp_all
  then show ?thesis by simp
qed

section \<open>A run of the binary32 sampler\<close>

lemmas fl32_steps = fl32_step1 fl32_step2 fl32_step3 fl32_step4 fl32_step5 fl32_step6 fl32_step7
  fl32_step8 fl32_step9 fl32_step10 fl32_step11 fl32_step12 fl32_step13 fl32_step14 fl32_step15
  fl32_step16 fl32_step17 fl32_step18 fl32_step19 fl32_step20 fl32_step21 fl32_step22 fl32_step23
  fl32_step24 fl32_step25 fl32_step26 fl32_step27 fl32_step28 fl32_step29 fl32_step30 fl32_step31
  fl32_step32 fl32_step33 fl32_step34 fl32_step35 fl32_step36

lemma edge_cellSize: "cellSize32 edgeMinDist = edgeCell"
  by (simp add: cellSize32_def edgeMinDist_def edgeCell_def fl32_steps)

lemma edge_gridW: "\<lceil>fl32 (1 / edgeCell)\<rceil> = 14"
  by (simp add: edgeCell_def fl32_steps)

lemma edge_cell0: "imageToGrid32 edgeP0 edgeCell = (12, 12)"
  by (simp add: imageToGrid32_def edgeP0_def edgeCell_def mkPoint_def int_cast_def fl32_steps)

lemma edge_cell1: "imageToGrid32 edgeP1 edgeCell = (12, 12)"
  by (simp add: imageToGrid32_def edgeP1_def edgeCell_def mkPoint_def int_cast_def fl32_steps)

lemma edge_cell2: "imageToGrid32 edgeP2 edgeCell = (11, 11)"
  by (simp add: imageToGrid32_def edgeP2_def edgeCell_def mkPoint_def int_cast_def fl32_steps)

lemma edge_around1:
  "generateRandomPointAround32 (countingPRNG edgeDraws) edgeP0 edgeMinDist 3 = (edgeP1, 5)"
  by (simp add: generateRandomPointAround32_def countingPRNG_def edgeDraws_def edgeP0_def edgeP1_def
      edgeMinDist_def mkPoint_def fl32_steps)

lemma edge_around2:
  "generateRandomPointAround32 (countingPRNG edgeDraws) edgeP1 edgeMinDist 6 = (edgeP2, 8)"
  by (simp add: generateRandomPointAround32_def countingPRNG_def edgeDraws_def edgeP1_def edgeP2_def
      edgeMinDist_def mkPoint_def fl32_steps)

lemma edge_dist01: "getDistance32 edgeP0 edgeP1 = edgeMinDist"
  by (simp add: getDistance32_def edgeP0_def edgeP1_def edgeMinDist_def mkPoint_def fl32_steps)

lemma edge_dist12: "getDistance32 edgeP1 edgeP2 = 10833311 / 67108864"
  by (simp add: getDistance32_def edgeP1_def edgeP2_def mkPoint_def fl32_steps)

lemma edge_dist02: "getDistance32 edgeP0 edgeP2 = 112847 / 2097152"
  by (simp add: getDistance32_def edgeP0_def edgeP2_def mkPoint_def fl32_steps)

lemma edge_first: "firstPointLoop32 (countingPRNG edgeDraws) False 0 = Some (edgeP0, 2)"
  by (subst firstPointLoop32.simps)
     (simp add: countingPRNG_def edgeDraws_def canFit32_def isInRectangle_def mkPoint_def edgeP0_def)

lemma edge_insert0: "insert_grid32 (mkGrid 14 14 edgeCell) edgeP0 = Inr edgeGrid1"
proof -
  have c: "g_cellSize (mkGrid 14 14 edgeCell) = edgeCell" by (simp add: mkGrid_def)
  show ?thesis
    unfolding insert_grid32_def c edge_cell0
    by (simp add: mkGrid_def edgeGrid1_def)
qed

lemma edge_insert1: "insert_grid32 edgeGrid1 edgeP1 = Inr edgeGrid2"
proof -
  have c: "g_cellSize edgeGrid1 = edgeCell" by (simp add: edgeGrid1_def)
  show ?thesis
    unfolding insert_grid32_def c edge_cell1
    by (simp add: edgeGrid1_def edgeGrid2_def)
qed

lemma edge_insert2: "insert_grid32 edgeGrid2 edgeP2 = Inr edgeGrid3"
proof -
  have c: "g_cellSize edgeGrid2 = edgeCell" by (simp add: edgeGrid2_def)
  show ?thesis
    unfolding insert_grid32_def c edge_cell2
    by (simp add: edgeGrid2_def edgeGrid3_def list_update_swap)
qed

lemma edge_no_neighbour1: "\<not> isInNeighbourhood32 edgeGrid1 edgeP1 edgeMinDist edgeCell"
  unfolding isInNeighbourhood32_def edge_cell1 prod.case D_cells_def upto_10
  by (simp add: edgeGrid1_def Point0_def edge_dist01)

lemma edge_no_neighbour2: "\<not> isInNeighbourhood32 edgeGrid2 edgeP2 edgeMinDist edgeCell"
  unfolding isInNeighbourhood32_def edge_cell2 prod.case D_cells_def upto_10
  by (simp add: edgeGrid2_def Point0_def edge_dist12 edgeMinDist_def)

lemma edge_fit1: "canFit32 False edgeP1"
  by (simp add: canFit32_def isInRectangle_def edgeP1_def mkPoint_def)

lemma edge_fit2: "canFit32 False edgeP2"
  by (simp add: canFit32_def isInRectangle_def edgeP2_def mkPoint_def)

lemma edge_candidates1:
  "candidates32 (countingPRNG edgeDraws) edgeP0 False edgeMinDist edgeCell (Suc 0)
     \<lparr>samplePoints = [edgeP0], processList = [], grid = edgeGrid1, gen = 3\<rparr> =
   Inr \<lparr>samplePoints = [edgeP0, edgeP1], processList = [edgeP1], grid = edgeGrid2, gen = 5\<rparr>"
  by (simp add: edge_around1 edge_fit1 edge_no_neighbour1 edge_insert1)

lemma edge_candidates2:
  "candidates32 (countingPRNG edgeDraws) edgeP1 False edgeMinDist edgeCell (Suc 0)
     \<lparr>samplePoints = [edgeP0, edgeP1], processList = [], grid = edgeGrid2, gen = 6\<rparr> =
   Inr edgeFinal"
  by (simp add: edge_around2 edge_fit2 edge_no_neighbour2 edge_insert2 edgeFinal_def)

lemma edge_pop1: "popRandom (countingPRNG edgeDraws) [edgeP0] 2 = Inr (edgeP0, [], 3)"
  by (simp add: popRandom_def countingPRNG_def)

lemma edge_pop2: "popRandom (countingPRNG edgeDraws) [edgeP1] 5 = Inr (edgeP1, [], 6)"
  by (simp add: popRandom_def countingPRNG_def)

lemma edge_mainLoop:
  "mainLoop32 (countingPRNG edgeDraws) 3 1 False edgeMinDist edgeCell (initialSampler edgeGrid1 edgeP0 2) =
   Inr edgeFinal"
  apply (subst mainLoop32.simps)
  apply (simp add: initialSampler_def edge_pop1 edge_candidates1 del: candidates32.simps)
  apply (subst mainLoop32.simps)
  apply (simp add: edge_pop2 edge_candidates2 del: candidates32.simps)
  apply (subst mainLoop32.simps)
  apply (simp add: edgeFinal_def)
  done

lemma edge_samplerRun:
  "samplerRun32 (countingPRNG edgeDraws) 3 0 1 False edgeMinDist = Some (Inr edgeFinal)"
proof -
  have e: "effectiveMinDist32 3 edgeMinDist = edgeMinDist"
    by (simp add: effectiveMinDist32_def edgeMinDist_def)
  have z: "edgeCell \<noteq> 0" by (simp add: edgeCell_def)
  have u: "\<not> gridUndefined32 3 edgeMinDist"
    unfolding gridUndefined32_def e edge_cellSize edge_gridW using z by (simp add: edgeMinDist_def)
  show ?thesis
    unfolding samplerRun32_def e Let_def edge_cellSize edge_gridW
    by (simp only: u if_False edge_first option.case prod.case edge_insert0 sum.case edge_mainLoop)
qed

text \<open>
  C1. In binary32 arithmetic the run returns three points of which the first and the
  third are closer than \<open>minDist\<close> (at half of it), both by the program's own
  \<open>getDistance\<close> and exactly. The first two points fall in the same cell, the
  second replaces the first in the grid, and the neighbourhood test of the third no
  longer sees the first.
\<close>

theorem minimum_distance_binary32:
  "generatePoissonPoints32 (countingPRNG edgeDraws) 3 0 1 False edgeMinDist =
     Some (Inr ([edgeP0, edgeP1, edgeP2], 8)) \<and>
   getDistance32 edgeP0 edgeP2 < edgeMinDist \<and>
   getDistance edgeP0 edgeP2 < edgeMinDist"
proof -
  have run: "generatePoissonPoints32 (countingPRNG edgeDraws) 3 0 1 False edgeMinDist =
     Some (Inr ([edgeP0, edgeP1, edgeP2], 8))"
    by (simp add: generatePoissonPoints32_def edge_samplerRun edgeFinal_def)
  have d32: "getDistance32 edgeP0 edgeP2 < edgeMinDist"
    by (simp add: edge_dist02 edgeMinDist_def)
  have "getDistance edgeP0 edgeP2 < 1 / 10"
    unfolding getDistance_def edgeP0_def edgeP2_def mkPoint_def
    by (intro real_less_lsqrt) (simp_all add: power2_eq_square)
  moreover have "(1::real) / 10 < edgeMinDist" by (simp add: edgeMinDist_def)
  ultimately have d: "getDistance edgeP0 edgeP2 < edgeMinDist" by simp
  from run d32 d show ?thesis by simp
qed

text \<open>
  C9. In the same run the first two accepted points have the same cell \<open>(12, 12)\<close>:
  the cell holds the valid first point when \<open>insert\<close> stores the second, and holds the
  second afterwards and at the end of the run, so \<open>insert\<close> overwrites an accepted
  point. The second point passed the neighbourhood test because the program's
  \<open>getDistance\<close> rounds its distance from the first to \<open>minDist\<close> itself, which is
  not below \<open>minDist\<close>; the rounded quotients of \<open>imageToGrid\<close> still give both
  points the cell \<open>(12, 12)\<close>.
\<close>

theorem insert_overwrites_binary32:
  "samplerRun32 (countingPRNG edgeDraws) 3 0 1 False edgeMinDist = Some (Inr edgeFinal) \<and>
   samplePoints edgeFinal = [edgeP0, edgeP1, edgeP2] \<and>
   imageToGrid32 edgeP0 (cellSize32 edgeMinDist) = (12, 12) \<and>
   imageToGrid32 edgeP1 (cellSize32 edgeMinDist) = (12, 12) \<and>
   insert_grid32 edgeGrid1 edgeP1 = Inr edgeGrid2 \<and>
   g_cells edgeGrid1 ! 12 ! 12 = edgeP0 \<and> valid edgeP0 \<and>
   g_cells edgeGrid2 ! 12 ! 12 = edgeP1 \<and>
   g_cells (grid edgeFinal) ! 12 ! 12 = edgeP1 \<and> edgeP1 \<noteq> edgeP0 \<and>
   getDistance32 edgeP0 edgeP1 = edgeMinDist"
proof -
  have "g_cells edgeGrid1 ! 12 ! 12 = edgeP0" by (simp add: edgeGrid1_def)
  moreover have "g_cells edgeGrid2 ! 12 ! 12 = edgeP1" by (simp add: edgeGrid2_def)
  moreover have "g_cells (grid edgeFinal) ! 12 ! 12 = edgeP1" by (simp add: edgeFinal_def edgeGrid3_def)
  moreover have "edgeP1 \<noteq> edgeP0" "valid edgeP0" by (simp_all add: edgeP0_def edgeP1_def mkPoint_def)
  moreover have "samplePoints edgeFinal = [edgeP0, edgeP1, edgeP2]" by (simp add: edgeFinal_def)
  ultimately show ?thesis
    using edge_samplerRun edge_cell0 edge_cell1 edge_insert1 edge_dist01
    by (simp add: edge_cellSize)
qed

end
